theory Spec2Isabelle
  imports Complex_Main "HOL-Library.AList" "HOL-Library.Log_Nat"
begin

section \<open>Arbitrary-precision integers (ethers BigNumber)\<close>

text \<open>
  The service computes on \<open>ethers.BigNumber\<close> values: signed integers of unbounded size.
  \<open>add\<close>, \<open>sub\<close> and \<open>mul\<close> are the operations of \<open>int\<close>. \<open>div\<close> truncates towards zero
  and throws on a zero divisor; \<open>toNumber\<close> throws when the value does not fit 53 bits.
  A throw is a \<open>None\<close> here; \<open>tdiv\<close> is the quotient itself, used where the divisor is
  known to be non-zero.
\<close>

definition tdiv :: "int \<Rightarrow> int \<Rightarrow> int" where
  "tdiv a b = sgn a * sgn b * (\<bar>a\<bar> div \<bar>b\<bar>)"

definition bn_div :: "int \<Rightarrow> int \<Rightarrow> int option" where
  "bn_div a b = (if b = 0 then None else Some (tdiv a b))"

definition toNumber :: "int \<Rightarrow> int option" where
  "toNumber x = (if \<bar>x\<bar> < 2 ^ 53 then Some x else None)"

text \<open>
  \<open>ethers.utils.parseUnits('1', 18)\<close>, the fixed-point base of all price arithmetic.
\<close>

definition PRECISION_BASE :: int where
  "PRECISION_BASE = 10 ^ 18"

section \<open>JavaScript numbers\<close>

text \<open>
  A JavaScript number is an IEEE-754 double. \<open>Finite r\<close> is the double whose value is the
  rational \<open>r\<close>; \<open>Infinity\<close> and \<open>MinusInfinity\<close> are the two infinities. \<open>NaN\<close> has no
  constructor: the search computes on a target, on integers below \<open>2 ^ 53\<close> and on the
  literals 0.1, 50, 100 and 10000, and none of its operations makes a \<open>NaN\<close> out of
  these. Zero has one sign; no operation here tells \<open>-0\<close> from \<open>0\<close>.
\<close>

datatype number = Finite rat | Infinity | MinusInfinity

text \<open>
  Rounding to the nearest double, ties to the even mantissa. \<open>floorlog2 a\<close> is the binary
  exponent of \<open>a > 0\<close>, the \<open>e\<close> with \<open>2 ^ e \<le> a < 2 ^ (e + 1)\<close>. The doubles around \<open>a\<close>
  are the multiples of \<open>2 ^ (e - 52)\<close>, and below the smallest normal number \<open>2 ^ -1022\<close>
  the multiples of \<open>2 ^ -1074\<close> (\<open>ulp_exponent\<close>). A magnitude that rounds to \<open>2 ^ 1024\<close> or
  more overflows to an infinity.
\<close>

definition floorlog2 :: "rat \<Rightarrow> int" where
  "floorlog2 a =
     (let e = bitlen (fst (quotient_of a)) - bitlen (snd (quotient_of a))
      in if 2 powi e \<le> a then e else e - 1)"

definition round_half_even :: "rat \<Rightarrow> int" where
  "round_half_even q =
     (let f = \<lfloor>q\<rfloor>; r = q - of_int f
      in if r < 1 / 2 then f else if 1 / 2 < r then f + 1 else if even f then f else f + 1)"

definition ulp_exponent :: "rat \<Rightarrow> int" where
  "ulp_exponent a = max (floorlog2 a) (- 1022) - 52"

definition round_magnitude :: "rat \<Rightarrow> rat" where
  "round_magnitude a =
     of_int (round_half_even (a / 2 powi ulp_exponent a)) * 2 powi ulp_exponent a"

definition round_double :: "rat \<Rightarrow> number" where
  "round_double x =
     (if x = 0 then Finite 0
      else let r = round_magnitude \<bar>x\<bar> in
        if 2 ^ 1024 \<le> r then (if 0 < x then Infinity else MinusInfinity)
        else Finite (if 0 < x then r else - r))"

text \<open>
  The operations the search applies to numbers. \<open>js_times x c\<close> is \<open>x * c\<close> for a literal
  \<open>c > 0\<close> (100 and 10000 here); \<open>js_floor\<close> is \<open>Math.floor\<close>; \<open>js_minus k y\<close> is \<open>k - y\<close>
  for an integer \<open>k\<close> that \<open>toNumber\<close> returned; \<open>js_abs\<close> is \<open>Math.abs\<close>; \<open>js_less\<close> and
  \<open>js_le\<close> are \<open><\<close> and \<open><=\<close>. Each arithmetic operation rounds the exact result once.
\<close>

fun js_times :: "number \<Rightarrow> rat \<Rightarrow> number" where
  "js_times (Finite a) c = round_double (a * c)"
| "js_times Infinity c = Infinity"
| "js_times MinusInfinity c = MinusInfinity"

fun js_floor :: "number \<Rightarrow> number" where
  "js_floor (Finite a) = Finite (of_int \<lfloor>a\<rfloor>)"
| "js_floor Infinity = Infinity"
| "js_floor MinusInfinity = MinusInfinity"

fun js_minus :: "int \<Rightarrow> number \<Rightarrow> number" where
  "js_minus k (Finite b) = round_double (of_int k - b)"
| "js_minus k Infinity = MinusInfinity"
| "js_minus k MinusInfinity = Infinity"

fun js_abs :: "number \<Rightarrow> number" where
  "js_abs (Finite a) = Finite \<bar>a\<bar>"
| "js_abs Infinity = Infinity"
| "js_abs MinusInfinity = Infinity"

fun js_less :: "number \<Rightarrow> number \<Rightarrow> bool" where
  "js_less (Finite a) (Finite b) = (a < b)"
| "js_less (Finite a) Infinity = True"
| "js_less (Finite a) MinusInfinity = False"
| "js_less Infinity y = False"
| "js_less MinusInfinity (Finite b) = True"
| "js_less MinusInfinity Infinity = True"
| "js_less MinusInfinity MinusInfinity = False"

fun js_le :: "number \<Rightarrow> number \<Rightarrow> bool" where
  "js_le (Finite a) (Finite b) = (a \<le> b)"
| "js_le (Finite a) Infinity = True"
| "js_le (Finite a) MinusInfinity = False"
| "js_le Infinity (Finite b) = False"
| "js_le Infinity Infinity = True"
| "js_le Infinity MinusInfinity = False"
| "js_le MinusInfinity y = True"

section \<open>Token amounts (ethers parseUnits and formatUnits)\<close>

text \<open>
  Modelled from the spec: \<open>ethers.utils.parseUnits\<close> and \<open>ethers.utils.formatUnits\<close> belong
  to the ethers library, which is not part of the repository. Both take the decimals of
  a token and throw (invalid decimal size) unless they are an integer from 0 to 256.
  The only call of \<open>parseUnits\<close> the search makes is \<open>parseUnits('0.001', decimals)\<close>,
  "0.001 units of the token, decimal-scaled": the integer \<open>10 ^ decimals / 1000\<close>. With
  fewer than three decimals 0.001 units is not an integer amount and the call throws
  (fractional component exceeds decimals).

  \<open>formatUnits(v, decimals)\<close> renders the integer \<open>v\<close> as the decimal string of
  \<open>v / 10 ^ decimals\<close>. The model keeps the rendered amount as the pair it is rendered
  from: the raw integer and the decimal count.
\<close>

datatype units_error = InvalidDecimalSize | FractionExceedsDecimals

definition parseUnits_milli :: "nat \<Rightarrow> units_error + int" where
  "parseUnits_milli decimals =
     (if 256 < decimals then Inl InvalidDecimalSize
      else if decimals < 3 then Inl FractionExceedsDecimals
      else Inr (10 ^ (decimals - 3)))"

datatype amount = Units (raw: int) (scale: nat)

definition formatUnits :: "int \<Rightarrow> nat \<Rightarrow> amount option" where
  "formatUnits v decimals = (if 256 < decimals then None else Some (Units v decimals))"

section \<open>The slippage search (utils/slippage.ts)\<close>

record SlippageQuote =
  sellAmount :: amount
  buyAmount :: amount

text \<open>
  \<open>router\<close> is \<open>router.getAmountsOut\<close> under \<open>withTimeout\<close>: it receives the amount in and
  the path, and answers with the list of amounts, or with \<open>None\<close> when the call rejects
  or times out. \<open>targetSlippage\<close> is a JavaScript number. The field holds the decimal the
  caller writes, and the code computes on \<open>round_double (targetSlippage p)\<close>, the double
  that decimal is read as: 0.071 is a double a little under 71/1000, a decimal from
  about 1.8e308 on is \<open>Infinity\<close>, and the value of a double is read as itself. The
  decimals of the two tokens are natural numbers.
\<close>

record SlippageCalculationParams =
  router :: "int \<Rightarrow> string list \<Rightarrow> int list option"
  path :: "string list"
  reserveSell :: int
  reserveBuy :: int
  targetSlippage :: rat
  sellTokenDecimals :: nat
  buyTokenDecimals :: nat

text \<open>
  The three ways \<open>calculateSlippageQuote\<close> rejects: the zero-reserve guard, the throw of
  \<open>parseUnits\<close>, and the final "Could not calculate quote for N% slippage", which carries
  the number \<open>targetSlippage * 100\<close> of its message.
\<close>

datatype slippage_error =
    ZeroReserves
  | UnitsError units_error
  | NoQuoteFound number

text \<open>
  What one loop iteration did, in the order the iterations ran. \<open>Skipped mid\<close> is the
  \<open>continue\<close> taken before the oracle is asked; every other event is one call of
  \<open>router.getAmountsOut(mid, path)\<close>: \<open>Caught mid\<close> when the \<open>try\<close> block threw (the call
  rejected or timed out, the answer was empty, a division by zero, \<open>toNumber\<close>
  overflowed, or \<open>formatUnits\<close> refused the decimals), \<open>ZeroOutput mid\<close> when the amount
  out was zero, and \<open>Candidate mid amountOut priceImpactBP\<close> when the \<open>try\<close> block ran
  to its end or to its \<open>break\<close>, with that price impact.
\<close>

datatype event =
    Skipped int
  | Caught int
  | ZeroOutput int
  | Candidate int int int

fun is_oracle_call :: "event \<Rightarrow> bool" where
  "is_oracle_call (Skipped mid) = False"
| "is_oracle_call (Caught mid) = True"
| "is_oracle_call (ZeroOutput mid) = True"
| "is_oracle_call (Candidate mid amountOut bp) = True"

definition spotPrice :: "SlippageCalculationParams \<Rightarrow> int" where
  "spotPrice p = tdiv (reserveBuy p * PRECISION_BASE) (reserveSell p)"

text \<open>
  Lines 38, 45 and 46, and the number of line 106: \<open>targetSlippage >= 0.1 ? 60 : 20\<close>,
  \<open>Math.floor(targetSlippage * 10000)\<close> and \<open>targetSlippage * 100\<close>, all in double
  arithmetic.
\<close>

definition maxTradePercent :: "SlippageCalculationParams \<Rightarrow> int" where
  "maxTradePercent p =
     (if js_le (round_double (1 / 10)) (round_double (targetSlippage p)) then 60 else 20)"

definition targetSlippageBP :: "SlippageCalculationParams \<Rightarrow> number" where
  "targetSlippageBP p = js_floor (js_times (round_double (targetSlippage p)) 10000)"

definition toleranceBP :: number where
  "toleranceBP = Finite 50"

definition percent :: "rat \<Rightarrow> number" where
  "percent t = js_times (round_double t) 100"

text \<open>
  Lines 70 to 75: the effective price of selling \<open>mid\<close> for \<open>amountOut\<close> and its distance
  from the spot price in basis points, as a JavaScript number. \<open>mid\<close> is non-zero where
  the loop computes this.
\<close>

definition priceImpactBPNum :: "int \<Rightarrow> int \<Rightarrow> int \<Rightarrow> int option" where
  "priceImpactBPNum spot amountOut mid =
     (case bn_div (amountOut * PRECISION_BASE) mid of
        None \<Rightarrow> None
      | Some effectivePrice \<Rightarrow>
          (case bn_div ((spot - effectivePrice) * 10000) spot of
             None \<Rightarrow> None
           | Some priceImpactBP \<Rightarrow> toNumber priceImpactBP))"

text \<open>
  The \<open>try\<close> block of one iteration up to the price impact (lines 57 to 75). None of it
  depends on the target.
\<close>

datatype probe = Threw | ZeroOut | Impact int int

definition probe_at :: "SlippageCalculationParams \<Rightarrow> int \<Rightarrow> probe" where
  "probe_at p mid =
     (case router p mid (path p) of
        None \<Rightarrow> Threw
      | Some amountsOut \<Rightarrow>
          if amountsOut = [] then Threw
          else let amountOut = last amountsOut in
            if amountOut = 0 then ZeroOut
            else (case priceImpactBPNum (spotPrice p) amountOut mid of
                    None \<Rightarrow> Threw
                  | Some bp \<Rightarrow> Impact amountOut bp))"

definition logged :: "event \<Rightarrow> 'a \<times> event list \<Rightarrow> 'a \<times> event list" where
  "logged e r = (fst r, e # snd r)"

text \<open>
  The object literal of lines 79 to 82 and 88 to 91: both amounts rendered by
  \<open>formatUnits\<close>, the sell amount first. It throws when either call does.
\<close>

definition quote_at :: "SlippageCalculationParams \<Rightarrow> int \<Rightarrow> int \<Rightarrow> SlippageQuote option" where
  "quote_at p mid amountOut =
     (case formatUnits mid (sellTokenDecimals p) of
        None \<Rightarrow> None
      | Some sell \<Rightarrow>
          (case formatUnits amountOut (buyTokenDecimals p) of
             None \<Rightarrow> None
           | Some buy \<Rightarrow> Some \<lparr> sellAmount = sell, buyAmount = buy \<rparr>))"

text \<open>
  The body of the loop (lines 51 to 101) at \<open>mid\<close>, with the \<open>bestResult\<close> and
  \<open>bestDiffBP\<close> it starts from. It ends in one of three ways: \<open>break\<close> with the accepted
  quote; \<open>high = mid.sub(1)\<close>; or \<open>low = mid.add(1)\<close>. The last two carry the
  \<open>bestResult\<close> and \<open>bestDiffBP\<close> the iteration leaves behind. Line 87 assigns
  \<open>bestDiffBP\<close> before line 88 builds the quote, so a throw of \<open>formatUnits\<close> there
  leaves the new \<open>bestDiffBP\<close> with the old \<open>bestResult\<close>.
\<close>

datatype outcome =
    Accepted SlippageQuote event
  | SetHigh event "SlippageQuote option" number
  | SetLow event "SlippageQuote option" number

definition iteration ::
  "SlippageCalculationParams \<Rightarrow> int \<Rightarrow> SlippageQuote option \<Rightarrow> number \<Rightarrow> outcome" where
  "iteration p mid bestResult bestDiffBP =
     (if mid = 0 \<or> mid \<ge> tdiv (reserveSell p) 2 then SetHigh (Skipped mid) bestResult bestDiffBP
      else
        (case probe_at p mid of
           Threw \<Rightarrow> SetHigh (Caught mid) bestResult bestDiffBP
         | ZeroOut \<Rightarrow> SetHigh (ZeroOutput mid) bestResult bestDiffBP
         | Impact amountOut bp \<Rightarrow>
             let diffBP = js_abs (js_minus bp (targetSlippageBP p)) in
             if js_le diffBP toleranceBP then
               (case quote_at p mid amountOut of
                  None \<Rightarrow> SetHigh (Caught mid) bestResult bestDiffBP
                | Some q \<Rightarrow> Accepted q (Candidate mid amountOut bp))
             else if js_less diffBP bestDiffBP then
               (case quote_at p mid amountOut of
                  None \<Rightarrow> SetHigh (Caught mid) bestResult diffBP
                | Some q \<Rightarrow>
                    if js_less (Finite (of_int bp)) (targetSlippageBP p)
                    then SetLow (Candidate mid amountOut bp) (Some q) diffBP
                    else SetHigh (Candidate mid amountOut bp) (Some q) diffBP)
             else
               (if js_less (Finite (of_int bp)) (targetSlippageBP p)
                then SetLow (Candidate mid amountOut bp) bestResult bestDiffBP
                else SetHigh (Candidate mid amountOut bp) bestResult bestDiffBP)))"

text \<open>
  The \<open>for\<close> loop of lines 48 to 102, from the state \<open>(i, low, high, bestResult,
  bestDiffBP)\<close>. It returns \<open>bestResult\<close> as the loop leaves it, and the events of the
  iterations it ran. \<open>bestDiffBP\<close> starts at \<open>Number.POSITIVE_INFINITY\<close>.
\<close>

function search_loop ::
  "SlippageCalculationParams \<Rightarrow> nat \<Rightarrow> int \<Rightarrow> int \<Rightarrow> SlippageQuote option \<Rightarrow> number
     \<Rightarrow> SlippageQuote option \<times> event list" where
  "search_loop p i low high bestResult bestDiffBP =
     (if i < 15 \<and> low \<le> high then
        (case iteration p (tdiv (low + high) 2) bestResult bestDiffBP of
           Accepted q e \<Rightarrow> (Some q, [e])
         | SetHigh e bestResult' bestDiffBP' \<Rightarrow>
             logged e (search_loop p (i + 1) low (tdiv (low + high) 2 - 1) bestResult' bestDiffBP')
         | SetLow e bestResult' bestDiffBP' \<Rightarrow>
             logged e (search_loop p (i + 1) (tdiv (low + high) 2 + 1) high bestResult' bestDiffBP'))
      else (bestResult, []))"
  by pat_completeness auto
termination
  by (relation "measure (\<lambda>(p, i, low, high, bestResult, bestDiffBP). 15 - i)") auto

declare search_loop.simps [simp del]

definition calculateSlippageQuote ::
  "SlippageCalculationParams \<Rightarrow> (slippage_error + SlippageQuote) \<times> event list" where
  "calculateSlippageQuote p =
     (if reserveSell p = 0 \<or> reserveBuy p = 0 then (Inl ZeroReserves, [])
      else
        (case parseUnits_milli (sellTokenDecimals p) of
           Inl e \<Rightarrow> (Inl (UnitsError e), [])
         | Inr minTradeAmount \<Rightarrow>
             let maxTradeAmount = tdiv (reserveSell p * maxTradePercent p) 100;
                 r = search_loop p 0 minTradeAmount maxTradeAmount None Infinity
             in (case fst r of
                   None \<Rightarrow> (Inl (NoQuoteFound (percent (targetSlippage p))), snd r)
                 | Some bestResult \<Rightarrow> (Inr bestResult, snd r))))"

text \<open>
  A synthetic constant-product pool as a router: selling \<open>x\<close> into reserves
  \<open>(rs, rb)\<close> pays out \<open>x * rb / (rs + x)\<close>, rounded down, which keeps the product of the
  reserves from falling. \<open>getAmountsOut\<close> answers with the amount in and the amount out.
\<close>

definition constant_product :: "int \<Rightarrow> int \<Rightarrow> int \<Rightarrow> string list \<Rightarrow> int list option" where
  "constant_product rs rb amountIn pth = Some [amountIn, (amountIn * rb) div (rs + amountIn)]"

section \<open>The orchestrator (services/liquidityService.ts)\<close>

record LiquidityRequest =
  sellToken :: string
  buyToken :: string
  chainId :: int

record ChainConfig =
  rpcUrl :: string
  factoryAddress :: string
  routerAddress :: string
  name :: string

text \<open>
  \<open>TokenReserves\<close> carries the reserves as decimal strings (\<open>reserve0.toString()\<close>), which
  \<open>getLiquidityQuotes\<close> reads back with \<open>BigNumber.from\<close>; the model keeps the integers.
  The fields are prefixed, since \<open>reserveSell\<close> and \<open>reserveBuy\<close> already name the fields
  of the search parameters.
\<close>

record TokenReserves =
  res_reserveSell :: int
  res_reserveBuy :: int
  res_token0 :: string
  res_token1 :: string

text \<open>The three slots \<open>'1%'\<close>, \<open>'5%'\<close> and \<open>'10%'\<close> of a response.\<close>

record Quotes =
  quote1 :: SlippageQuote
  quote5 :: SlippageQuote
  quote10 :: SlippageQuote

record LiquidityResponse =
  resp_sellToken :: string
  resp_buyToken :: string
  resp_chainId :: int
  quotes :: Quotes

text \<open>
  The errors \<open>getLiquidityQuotes\<close> throws, one constructor for each \<open>throw\<close>.
  \<open>QuotesFailed\<close> carries the combined message of lines 123 to 127.
\<close>

datatype service_error =
    InvalidAddress nat string
  | IdenticalTokens
  | UnsupportedChain int
  | NoPool
  | ZeroPoolReserves
  | InvalidTokenDecimals int string
  | UnitsFault
  | InsufficientLiquidity
  | ShallowPool
  | QuotesFailed string

text \<open>
  What the chain answers to the read-only calls of one provider: the factory's
  \<open>getPair\<close>, the pair's \<open>getReserves\<close>, \<open>token0\<close> and \<open>token1\<close>, a token's \<open>decimals\<close>
  and the router's \<open>getAmountsOut\<close>. Only the router call may fail here: the \<open>catch\<close>
  blocks of \<open>getTokenReserves\<close> and \<open>getTokenDecimals\<close> rewrite errors whose message
  contains \<open>CALL_EXCEPTION\<close> or \<open>timeout\<close>, which the errors thrown by the checks
  themselves (built from checksummed addresses and chain names) do not.
\<close>

record provider =
  factory_getPair :: "string \<Rightarrow> string \<Rightarrow> string"
  pair_getReserves :: "string \<Rightarrow> int \<times> int"
  pair_token0 :: "string \<Rightarrow> string"
  pair_token1 :: "string \<Rightarrow> string"
  token_decimals :: "string \<Rightarrow> int"
  router_getAmountsOut :: "int \<Rightarrow> string list \<Rightarrow> int list option"

text \<open>
  What the service takes from outside the repository: \<open>ethers.utils.getAddress\<close>
  (\<open>None\<close> when it throws), the provider of each chain, and the conversion of a
  JavaScript number to a string inside a template literal.
\<close>

record env =
  getAddress :: "string \<Rightarrow> string option"
  provider_of :: "int \<Rightarrow> provider"
  numText :: "number \<Rightarrow> string"

definition AddressZero :: string where
  "AddressZero = ''0x0000000000000000000000000000000000000000''"

definition toLowerCase :: "string \<Rightarrow> string" where
  "toLowerCase s =
     map (\<lambda>c. if 65 \<le> (of_char c :: nat) \<and> (of_char c :: nat) \<le> 90
              then char_of ((of_char c :: nat) + 32) else c) s"

definition MIN_TOKEN_DECIMALS :: int where
  "MIN_TOKEN_DECIMALS = 0"

definition MAX_TOKEN_DECIMALS :: int where
  "MAX_TOKEN_DECIMALS = 77"

text \<open>utils/address.ts.\<close>

definition toChecksumAddress :: "(string \<Rightarrow> string option) \<Rightarrow> string \<Rightarrow> string option" where
  "toChecksumAddress getAddr address = getAddr (toLowerCase address)"

fun validate_from ::
  "(string \<Rightarrow> string option) \<Rightarrow> nat \<Rightarrow> string list \<Rightarrow> service_error + string list" where
  "validate_from getAddr i [] = Inr []"
| "validate_from getAddr i (a # addresses) =
     (case toChecksumAddress getAddr a of
        None \<Rightarrow> Inl (InvalidAddress i a)
      | Some checksummed \<Rightarrow>
          (case validate_from getAddr (i + 1) addresses of
             Inl e \<Rightarrow> Inl e
           | Inr result \<Rightarrow> Inr (checksummed # result)))"

definition validateAndNormalizeAddresses ::
  "(string \<Rightarrow> string option) \<Rightarrow> string list \<Rightarrow> service_error + string list" where
  "validateAndNormalizeAddresses getAddr addresses = validate_from getAddr 0 addresses"

text \<open>config/chains.ts. The RPC URL comes from the environment or a default.\<close>

definition CHAIN_CONFIGS :: "int \<Rightarrow> ChainConfig option" where
  "CHAIN_CONFIGS cid =
     (if cid = 1 then
        Some \<lparr> rpcUrl = ''https://ethereum.publicnode.com'',
               factoryAddress = ''0x5C69bEe701ef814a2B6a3EDD4B1652CB9cc5aA6f'',
               routerAddress = ''0x7a250d5630B4cF539739dF2C5dAcb4c659F2488D'',
               name = ''Ethereum'' \<rparr>
      else if cid = 137 then
        Some \<lparr> rpcUrl = ''https://polygon-rpc.com'',
               factoryAddress = ''0x5757371414417b8C6CAad45bAeF941aBc7d3Ab32'',
               routerAddress = ''0xa5E0829CaCEd8fFDD4De3c43696c57F7D7A678ff'',
               name = ''Polygon'' \<rparr>
      else if cid = 56 then
        Some \<lparr> rpcUrl = ''https://bsc-dataseed.binance.org'',
               factoryAddress = ''0xcA143Ce32Fe78f1f7019d7d551a6402fC5350c73'',
               routerAddress = ''0x10ED43C718714eb63d5aA57B78B54704E256024E'',
               name = ''BSC'' \<rparr>
      else if cid = 42161 then
        Some \<lparr> rpcUrl = ''https://arb1.arbitrum.io/rpc'',
               factoryAddress = ''0xc35DADB65012eC5796536bD9864eD8773aBc74C4'',
               routerAddress = ''0x1b02dA8Cb0d097eB8D57A175b88c7D8b47997506'',
               name = ''Arbitrum'' \<rparr>
      else None)"

definition getChainConfig :: "int \<Rightarrow> service_error + ChainConfig" where
  "getChainConfig cid =
     (case CHAIN_CONFIGS cid of
        None \<Rightarrow> Inl (UnsupportedChain cid)
      | Some config \<Rightarrow> Inr config)"

definition getTokenDecimals :: "provider \<Rightarrow> string \<Rightarrow> service_error + nat" where
  "getTokenDecimals prov tokenAddress =
     (let decimals = token_decimals prov tokenAddress in
      if decimals < MIN_TOKEN_DECIMALS \<or> decimals > MAX_TOKEN_DECIMALS
      then Inl (InvalidTokenDecimals decimals tokenAddress)
      else Inr (nat decimals))"

text \<open>
  Lines 186 to 207 of \<open>getTokenReserves\<close>: the minimum reserve of a token with the given
  decimals, the larger of \<open>parseUnits('0.001', decimals)\<close> and \<open>10 ^ decimals / 1000\<close>.
\<close>

definition MIN_RESERVE :: "nat \<Rightarrow> int option" where
  "MIN_RESERVE decimals =
     (case parseUnits_milli decimals of
        Inl e \<Rightarrow> None
      | Inr ABSOLUTE_MIN_RESERVE \<Rightarrow>
          let SCALED_MIN = tdiv (10 ^ decimals) 1000
          in Some (if ABSOLUTE_MIN_RESERVE > SCALED_MIN then ABSOLUTE_MIN_RESERVE else SCALED_MIN))"

text \<open>
  \<open>Promise.all\<close> over the two \<open>getTokenDecimals\<close> calls rejects with the rejection of
  whichever call fails; when both fail the model reports token0's.
\<close>

definition getTokenReserves ::
  "string \<Rightarrow> string \<Rightarrow> provider \<Rightarrow> service_error + TokenReserves" where
  "getTokenReserves sellTok buyTok prov =
     (let pairAddress = factory_getPair prov sellTok buyTok in
      if pairAddress = AddressZero then Inl NoPool
      else
        let reserve0 = fst (pair_getReserves prov pairAddress);
            reserve1 = snd (pair_getReserves prov pairAddress);
            token0 = pair_token0 prov pairAddress;
            token1 = pair_token1 prov pairAddress
        in
        if reserve0 = 0 \<or> reserve1 = 0 then Inl ZeroPoolReserves
        else
          (case getTokenDecimals prov token0 of
             Inl e \<Rightarrow> Inl e
           | Inr token0Decimals \<Rightarrow>
          (case getTokenDecimals prov token1 of
             Inl e \<Rightarrow> Inl e
           | Inr token1Decimals \<Rightarrow>
          (case MIN_RESERVE token0Decimals of
             None \<Rightarrow> Inl UnitsFault
           | Some MIN_RESERVE_0 \<Rightarrow>
          (case MIN_RESERVE token1Decimals of
             None \<Rightarrow> Inl UnitsFault
           | Some MIN_RESERVE_1 \<Rightarrow>
               if reserve0 < MIN_RESERVE_0 \<or> reserve1 < MIN_RESERVE_1 then Inl InsufficientLiquidity
               else
                 let testTradeSize = tdiv reserve0 1000 in
                 if testTradeSize < MIN_RESERVE_0 * 10 then Inl ShallowPool
                 else
                   let isSellToken0 = (toLowerCase sellTok = toLowerCase token0) in
                   Inr \<lparr> res_reserveSell = (if isSellToken0 then reserve0 else reserve1),
                         res_reserveBuy = (if isSellToken0 then reserve1 else reserve0),
                         res_token0 = token0,
                         res_token1 = token1 \<rparr>)))))"

text \<open>
  The \<open>message\<close> of an error of the search. The texts of the \<open>parseUnits\<close> faults are the
  library's and are given by their leading words.
\<close>

fun error_message :: "(number \<Rightarrow> string) \<Rightarrow> slippage_error \<Rightarrow> string" where
  "error_message txt ZeroReserves = ''Reserve amounts are zero - cannot calculate price''"
| "error_message txt (UnitsError InvalidDecimalSize) = ''invalid decimal size''"
| "error_message txt (UnitsError FractionExceedsDecimals) = ''fractional component exceeds decimals''"
| "error_message txt (NoQuoteFound n) =
     ''Could not calculate quote for '' @ txt n @ ''% slippage''"

text \<open>The literals \<open>[0.01, 0.05, 0.1]\<close> of line 83.\<close>

definition slippageLevels :: "rat list" where
  "slippageLevels = [1 / 100, 5 / 100, 1 / 10]"

text \<open>\<open>Array.prototype.join\<close>.\<close>

fun join :: "string \<Rightarrow> string list \<Rightarrow> string" where
  "join sep [] = []"
| "join sep [x] = x"
| "join sep (x # y # ys) = x @ sep @ join sep (y # ys)"

text \<open>
  Lines 108 to 138: what \<open>getLiquidityQuotes\<close> makes of the three settled searches.
  \<open>fulfilled_value\<close> is \<open>status === 'fulfilled' ? value : null\<close>; \<open>rejection_text\<close> is the
  entry of the \<open>errors\<close> array for one search, \<open>null\<close> for a fulfilled one, its label the
  number \<open>slippageLevels[index] * 100\<close>; \<open>truthy\<close> is \<open>filter(Boolean)\<close> on such entries.
\<close>

definition fulfilled_value :: "slippage_error + SlippageQuote \<Rightarrow> SlippageQuote option" where
  "fulfilled_value settled = (case settled of Inl reason \<Rightarrow> None | Inr v \<Rightarrow> Some v)"

definition rejection_text ::
  "(number \<Rightarrow> string) \<Rightarrow> rat \<Rightarrow> slippage_error + SlippageQuote \<Rightarrow> string option" where
  "rejection_text txt level settled =
     (case settled of
        Inl reason \<Rightarrow>
          Some (txt (percent level) @ ''%: '' @
                (if error_message txt reason = [] then ''Unknown error''
                 else error_message txt reason))
      | Inr v \<Rightarrow> None)"

fun truthy :: "string option \<Rightarrow> bool" where
  "truthy None = False"
| "truthy (Some s) = (s \<noteq> [])"

definition aggregateQuotes ::
  "(number \<Rightarrow> string) \<Rightarrow> string \<Rightarrow> string \<Rightarrow> int \<Rightarrow> (slippage_error + SlippageQuote) list
     \<Rightarrow> service_error + LiquidityResponse" where
  "aggregateQuotes txt normalizedSellToken normalizedBuyToken cid settled =
     (let q1 = fulfilled_value (settled ! 0);
          q5 = fulfilled_value (settled ! 1);
          q10 = fulfilled_value (settled ! 2);
          errors = map the (filter truthy
                     (map (\<lambda>index. rejection_text txt (slippageLevels ! index) (settled ! index))
                        [0 ..< length settled]))
      in
      (case (q1, q5, q10) of
         (Some v1, Some v5, Some v10) \<Rightarrow>
           Inr \<lparr> resp_sellToken = normalizedSellToken,
                 resp_buyToken = normalizedBuyToken,
                 resp_chainId = cid,
                 quotes = \<lparr> quote1 = v1, quote5 = v5, quote10 = v10 \<rparr> \<rparr>
       | _ \<Rightarrow>
           Inl (QuotesFailed
                  (if length errors > 0
                   then ''Failed to calculate slippage quotes. Errors: '' @ join '', '' errors
                   else ''Failed to calculate slippage quotes''))))"

text \<open>
  \<open>getLiquidityQuotes\<close>. When both \<open>getTokenDecimals\<close> calls of line 78 fail, the model
  reports the sell token's error. The three searches share the router and the reserves
  and run to their end whatever the others do (\<open>Promise.allSettled\<close>); the log is the
  log of the three searches, one level after the other.
\<close>

definition getLiquidityQuotes ::
  "env \<Rightarrow> LiquidityRequest \<Rightarrow> (service_error + LiquidityResponse) \<times> event list" where
  "getLiquidityQuotes ev request =
     (case validateAndNormalizeAddresses (getAddress ev) [sellToken request, buyToken request] of
        Inl e \<Rightarrow> (Inl e, [])
      | Inr normalized \<Rightarrow>
          let normalizedSellToken = normalized ! 0;
              normalizedBuyToken = normalized ! 1
          in
          if normalizedSellToken = normalizedBuyToken then (Inl IdenticalTokens, [])
          else
            (case getChainConfig (chainId request) of
               Inl e \<Rightarrow> (Inl e, [])
             | Inr config \<Rightarrow>
                 let prov = provider_of ev (chainId request) in
                 (case getTokenReserves normalizedSellToken normalizedBuyToken prov of
                    Inl e \<Rightarrow> (Inl e, [])
                  | Inr reserves \<Rightarrow>
                 (case getTokenDecimals prov normalizedSellToken of
                    Inl e \<Rightarrow> (Inl e, [])
                  | Inr sellDecimals \<Rightarrow>
                 (case getTokenDecimals prov normalizedBuyToken of
                    Inl e \<Rightarrow> (Inl e, [])
                  | Inr buyDecimals \<Rightarrow>
                      let settled =
                            map (\<lambda>slippage.
                                   calculateSlippageQuote
                                     \<lparr> router = router_getAmountsOut prov,
                                       path = [normalizedSellToken, normalizedBuyToken],
                                       reserveSell = res_reserveSell reserves,
                                       reserveBuy = res_reserveBuy reserves,
                                       targetSlippage = slippage,
                                       sellTokenDecimals = sellDecimals,
                                       buyTokenDecimals = buyDecimals \<rparr>)
                                slippageLevels
                      in (aggregateQuotes (numText ev) normalizedSellToken normalizedBuyToken
                            (chainId request) (map fst settled),
                          concat (map snd settled)))))))"

section \<open>The cache (utils/cache.ts)\<close>

record 'a CacheEntry =
  data :: 'a
  timestamp :: int
  lastAccessed :: int

text \<open>
  The \<open>Map\<close> of the cache is the list of its entries in insertion order, one entry for
  each key: \<open>Map.set\<close> on a key already present replaces the value where it stands and
  otherwise appends (\<open>AList.update\<close>), \<open>Map.delete\<close> removes the entry (\<open>AList.delete\<close>),
  \<open>Map.get\<close> is \<open>map_of\<close>.

  \<open>maxSize\<close> and \<open>ttl\<close> are JavaScript numbers, which the constructor takes as they come.
  \<open>maxSize\<close> is any finite number, a fraction or a negative number included, so a
  rational. \<open>ttl\<close> is only ever compared with the difference of two clock readings, which
  are integers, and is read as an integer (a fractional \<open>ttl\<close> lets the same entries
  expire as the integer below it).
\<close>

record 'a SimpleCache =
  cache :: "(string \<times> 'a CacheEntry) list"
  maxSize :: rat
  ttl :: int

definition SimpleCache_new :: "rat \<Rightarrow> int \<Rightarrow> 'a SimpleCache" where
  "SimpleCache_new capacity timeToLive = \<lparr> cache = [], maxSize = capacity, ttl = timeToLive \<rparr>"

text \<open>\<open>Date.now()\<close> is an argument of each operation that reads the clock.\<close>

definition SimpleCache_get :: "int \<Rightarrow> string \<Rightarrow> 'a SimpleCache \<Rightarrow> 'a option \<times> 'a SimpleCache" where
  "SimpleCache_get now key c =
     (case map_of (cache c) key of
        None \<Rightarrow> (None, c)
      | Some entry \<Rightarrow>
          if now - timestamp entry > ttl c
          then (None, c\<lparr>cache := AList.delete key (cache c)\<rparr>)
          else (Some (data entry),
                c\<lparr>cache := AList.update key (entry\<lparr>lastAccessed := now\<rparr>) (cache c)\<rparr>))"

text \<open>
  \<open>makeRoom\<close>. \<open>Array.prototype.sort\<close> is stable, as \<open>sort_key\<close> is. \<open>toRemove\<close> is
  \<open>Math.max(1, Math.floor(this.maxSize * 0.25))\<close>: a double times 0.25 is exact unless it
  underflows, and then both this floor and the floor of the exact quarter are at most 0.
\<close>

definition SimpleCache_makeRoom :: "int \<Rightarrow> 'a SimpleCache \<Rightarrow> 'a SimpleCache" where
  "SimpleCache_makeRoom now c =
     (let unexpired = filter (\<lambda>kv. \<not> now - timestamp (snd kv) > ttl c) (cache c) in
      if of_nat (length unexpired) \<ge> maxSize c then
        let entries = sort_key (\<lambda>kv. lastAccessed (snd kv)) unexpired;
            toRemove = max 1 \<lfloor>maxSize c * (1 / 4)\<rfloor>
        in c\<lparr>cache := fold AList.delete (map fst (take (nat toRemove) entries)) unexpired\<rparr>
      else c\<lparr>cache := unexpired\<rparr>)"

text \<open>
  \<open>set\<close> reads the clock once itself (\<open>now\<close>) and once more inside \<open>makeRoom\<close>
  (\<open>roomNow\<close>).
\<close>

definition SimpleCache_set ::
  "int \<Rightarrow> int \<Rightarrow> string \<Rightarrow> 'a \<Rightarrow> 'a SimpleCache \<Rightarrow> 'a SimpleCache" where
  "SimpleCache_set now roomNow key d c =
     (if map_of (cache c) key \<noteq> None then
        c\<lparr>cache := AList.update key \<lparr> data = d, timestamp = now, lastAccessed = now \<rparr> (cache c)\<rparr>
      else
        let c' = (if of_nat (length (cache c)) \<ge> maxSize c then SimpleCache_makeRoom roomNow c else c)
        in c'\<lparr>cache := AList.update key \<lparr> data = d, timestamp = now, lastAccessed = now \<rparr> (cache c')\<rparr>)"

definition SimpleCache_size :: "'a SimpleCache \<Rightarrow> nat" where
  "SimpleCache_size c = length (cache c)"

definition SimpleCache_clear :: "'a SimpleCache \<Rightarrow> 'a SimpleCache" where
  "SimpleCache_clear c = c\<lparr>cache := []\<rparr>"

text \<open>A call of the cache from outside, and a sequence of calls from left to right.\<close>

datatype 'a cache_call = Set int int string 'a | Get int string | Clear

fun call :: "'a SimpleCache \<Rightarrow> 'a cache_call \<Rightarrow> 'a SimpleCache" where
  "call c (Set now roomNow key d) = SimpleCache_set now roomNow key d c"
| "call c (Get now key) = snd (SimpleCache_get now key c)"
| "call c Clear = SimpleCache_clear c"

definition calls :: "'a SimpleCache \<Rightarrow> 'a cache_call list \<Rightarrow> 'a SimpleCache" where
  "calls c cs = foldl call c cs"

section \<open>Notions the statements use\<close>

subsection \<open>Candidates of a search\<close>

fun is_candidate :: "event \<Rightarrow> bool" where
  "is_candidate (Candidate mid amountOut bp) = True"
| "is_candidate e = False"

text \<open>
  The quote of selling \<open>mid\<close> for \<open>amountOut\<close>, which \<open>quote_at\<close> builds when \<open>formatUnits\<close>
  takes the decimals of both tokens (\<open>formats\<close>).
\<close>

definition quote_of :: "SlippageCalculationParams \<Rightarrow> int \<Rightarrow> int \<Rightarrow> SlippageQuote" where
  "quote_of p mid amountOut =
     \<lparr> sellAmount = Units mid (sellTokenDecimals p),
       buyAmount = Units amountOut (buyTokenDecimals p) \<rparr>"

definition formats :: "SlippageCalculationParams \<Rightarrow> bool" where
  "formats p = (sellTokenDecimals p \<le> 256 \<and> buyTokenDecimals p \<le> 256)"

text \<open>
  The distance of a price impact from the target of the search as line 76 measures it:
  \<open>Math.abs(priceImpactBPNum - targetSlippageBP)\<close>, a double.
\<close>

definition diffBP_of :: "SlippageCalculationParams \<Rightarrow> int \<Rightarrow> number" where
  "diffBP_of p bp = js_abs (js_minus bp (targetSlippageBP p))"

text \<open>
  \<open>closest_at p evs mid amountOut bp\<close>: the search logged the candidate \<open>mid\<close>, the oracle
  answered \<open>amountOut\<close> for it, its realized price impact is \<open>bp\<close>, and no candidate of the
  log was measured closer to the target. \<open>no_better p bd evs\<close>: no candidate of the log
  was measured closer to the target than \<open>bd\<close>.
\<close>

definition closest_at ::
  "SlippageCalculationParams \<Rightarrow> event list \<Rightarrow> int \<Rightarrow> int \<Rightarrow> int \<Rightarrow> bool" where
  "closest_at p evs mid amountOut bp =
     (Candidate mid amountOut bp \<in> set evs \<and> probe_at p mid = Impact amountOut bp \<and>
      (\<forall>mid' amountOut' bp'. Candidate mid' amountOut' bp' \<in> set evs
          \<longrightarrow> js_le (diffBP_of p bp) (diffBP_of p bp')))"

definition no_better :: "SlippageCalculationParams \<Rightarrow> number \<Rightarrow> event list \<Rightarrow> bool" where
  "no_better p bd evs =
     (\<forall>mid amountOut bp. Candidate mid amountOut bp \<in> set evs
         \<longrightarrow> \<not> js_less (diffBP_of p bp) bd)"

definition closest_seen ::
  "SlippageCalculationParams \<Rightarrow> SlippageQuote option \<Rightarrow> number
     \<Rightarrow> SlippageQuote option \<times> event list \<Rightarrow> bool" where
  "closest_seen p best bd r =
     (case fst r of
        None \<Rightarrow> best = None \<and> no_better p bd (snd r)
      | Some q \<Rightarrow>
          (best = Some q \<and> no_better p bd (snd r))
          \<or> (\<exists>mid amountOut bp. q = quote_of p mid amountOut
                \<and> js_less (diffBP_of p bp) bd
                \<and> closest_at p (snd r) mid amountOut bp))"

text \<open>The first trade size a search probes or skips.\<close>

fun event_mid :: "event \<Rightarrow> int" where
  "event_mid (Skipped mid) = mid"
| "event_mid (Caught mid) = mid"
| "event_mid (ZeroOutput mid) = mid"
| "event_mid (Candidate mid amountOut bp) = mid"

subsection \<open>Example pools\<close>

text \<open>
  A pool of 0.005 tokens on each side, both tokens of 18 decimals, priced by the
  constant-product oracle; the target is 1%.
\<close>

definition shallow_pool :: SlippageCalculationParams where
  "shallow_pool =
     \<lparr> router = constant_product 5000000000000000 5000000000000000,
       path = [''0xA0b86991c6218b36c1d19D4a2e9Eb0cE3606eB48'',
               ''0xC02aaA39b223FE8D0A0e5C4F27eAD9083C756Cc2''],
       reserveSell = 5000000000000000,
       reserveBuy = 5000000000000000,
       targetSlippage = 1 / 100,
       sellTokenDecimals = 18,
       buyTokenDecimals = 18 \<rparr>"

text \<open>
  A pool of 0.055 tokens on each side, both tokens of 18 decimals, priced by the
  constant-product oracle, searched for the target \<open>t\<close>.
\<close>

definition small_pool :: "rat \<Rightarrow> SlippageCalculationParams" where
  "small_pool t =
     \<lparr> router = constant_product 55000000000000000 55000000000000000,
       path = [''0xA0b86991c6218b36c1d19D4a2e9Eb0cE3606eB48'',
               ''0xC02aaA39b223FE8D0A0e5C4F27eAD9083C756Cc2''],
       reserveSell = 55000000000000000,
       reserveBuy = 55000000000000000,
       targetSlippage = t,
       sellTokenDecimals = 18,
       buyTokenDecimals = 18 \<rparr>"

subsection \<open>The cache\<close>

text \<open>The entry \<open>set\<close> stores: the data with both timestamps at the time of the call.\<close>

definition fresh_entry :: "'a \<Rightarrow> int \<Rightarrow> 'a CacheEntry" where
  "fresh_entry d now = \<lparr> data = d, timestamp = now, lastAccessed = now \<rparr>"

text \<open>
  \<open>evicts_least_recent entries evicted\<close>: \<open>evicted\<close> are entries of \<open>entries\<close>, a quarter of
  them rounded down and at least one (all of them when there is none to spare), and no
  entry that stays was accessed earlier than an evicted one.
\<close>

definition evicts_least_recent ::
  "(string \<times> 'a CacheEntry) list \<Rightarrow> (string \<times> 'a CacheEntry) list \<Rightarrow> bool" where
  "evicts_least_recent entries evicted =
     (set evicted \<subseteq> set entries \<and> distinct evicted
      \<and> length evicted = min (length entries) (max 1 (length entries div 4))
      \<and> (\<forall>a \<in> set evicted. \<forall>b \<in> set entries - set evicted.
            lastAccessed (snd a) \<le> lastAccessed (snd b)))"

text \<open>The keys a sequence of calls sets.\<close>

fun keys_set :: "'a cache_call list \<Rightarrow> string set" where
  "keys_set [] = {}"
| "keys_set (Set now roomNow key d # cs) = insert key (keys_set cs)"
| "keys_set (Get now key # cs) = keys_set cs"
| "keys_set (Clear # cs) = keys_set cs"

text \<open>Two calls that fill a cache of capacity 2.\<close>

definition full_cache_calls :: "string cache_call list" where
  "full_cache_calls = [Set 0 0 ''key1'' ''value1'', Set 5 5 ''key2'' ''value2'']"

text \<open>Eight calls that set eight keys, one a millisecond.\<close>

definition eight_calls :: "string cache_call list" where
  "eight_calls =
     [Set 1 1 ''key1'' ''value1'', Set 2 2 ''key2'' ''value2'', Set 3 3 ''key3'' ''value3'',
      Set 4 4 ''key4'' ''value4'', Set 5 5 ''key5'' ''value5'', Set 6 6 ''key6'' ''value6'',
      Set 7 7 ''key7'' ''value7'', Set 8 8 ''key8'' ''value8'']"

subsection \<open>The orchestrator\<close>

text \<open>
  The entries of the combined error message: for each level whose search was rejected,
  in the order of the levels, the level in percent, \<open>%: \<close> and the message of its error.
\<close>

fun failed_levels ::
  "(number \<Rightarrow> string) \<Rightarrow> rat list \<Rightarrow> (slippage_error + SlippageQuote) list \<Rightarrow> string list" where
  "failed_levels txt (level # levels) (Inl reason # settled) =
     (txt (percent level) @ ''%: '' @ error_message txt reason) # failed_levels txt levels settled"
| "failed_levels txt (level # levels) (Inr v # settled) = failed_levels txt levels settled"
| "failed_levels txt levels settled = []"

text \<open>
  The search \<open>getLiquidityQuotes\<close> launches for one level, from what the earlier steps
  gave it.
\<close>

definition search_at ::
  "provider \<Rightarrow> string \<Rightarrow> string \<Rightarrow> TokenReserves \<Rightarrow> nat \<Rightarrow> nat \<Rightarrow> rat
     \<Rightarrow> (slippage_error + SlippageQuote) \<times> event list" where
  "search_at prov normalizedSellToken normalizedBuyToken reserves sellDecimals buyDecimals level =
     calculateSlippageQuote
       \<lparr> router = router_getAmountsOut prov,
         path = [normalizedSellToken, normalizedBuyToken],
         reserveSell = res_reserveSell reserves,
         reserveBuy = res_reserveBuy reserves,
         targetSlippage = level,
         sellTokenDecimals = sellDecimals,
         buyTokenDecimals = buyDecimals \<rparr>"

text \<open>
  An example chain: one pool of DAI (token0) and WETH (token1), both of 18 decimals,
  with the given reserves, priced by the constant-product oracle.
\<close>

definition DAI :: string where
  "DAI = ''0x6B175474E89094C44Da98b954EedeAC495271d0F''"

definition WETH :: string where
  "WETH = ''0xC02aaA39b223FE8D0A0e5C4F27eAD9083C756Cc2''"

definition DAI_WETH_PAIR :: string where
  "DAI_WETH_PAIR = ''0xA478c2975Ab1Ea89e8196811F51A7B7Ade33eB11''"

definition example_provider :: "int \<Rightarrow> int \<Rightarrow> provider" where
  "example_provider reserve0 reserve1 =
     \<lparr> factory_getPair = (\<lambda>tokenA tokenB. DAI_WETH_PAIR),
       pair_getReserves = (\<lambda>pair. (reserve0, reserve1)),
       pair_token0 = (\<lambda>pair. DAI),
       pair_token1 = (\<lambda>pair. WETH),
       token_decimals = (\<lambda>token. 18),
       router_getAmountsOut =
         (\<lambda>amountIn pth. if pth = [DAI, WETH]
            then constant_product reserve0 reserve1 amountIn pth
            else constant_product reserve1 reserve0 amountIn pth) \<rparr>"

definition example_env :: "int \<Rightarrow> int \<Rightarrow> env" where
  "example_env reserve0 reserve1 =
     \<lparr> getAddress =
         (\<lambda>a. if a = toLowerCase DAI then Some DAI
              else if a = toLowerCase WETH then Some WETH else None),
       provider_of = (\<lambda>cid. example_provider reserve0 reserve1),
       numText = (\<lambda>x. if x = Finite 1 then ''1'' else if x = Finite 5 then ''5''
                      else if x = Finite 10 then ''10'' else ''?'') \<rparr>"

definition sell_WETH :: LiquidityRequest where
  "sell_WETH = \<lparr> sellToken = WETH, buyToken = DAI, chainId = 1 \<rparr>"

definition sell_DAI :: LiquidityRequest where
  "sell_DAI = \<lparr> sellToken = DAI, buyToken = WETH, chainId = 1 \<rparr>"


subsection \<open>Two searches side by side\<close>



text \<open>
  What a search remembers of its best candidate: the amount sold, the amount bought and
  the price impact. \<open>closer T s best\<close> is the update of lines 86 to 92 for the target
  \<open>T\<close>: the new candidate \<open>s\<close> replaces \<open>best\<close> when it is strictly closer to the target.
\<close>

type_synonym seen = "int \<times> int \<times> int"


definition best_of :: "SlippageCalculationParams \<Rightarrow> seen option \<Rightarrow> SlippageQuote option" where
  "best_of p best = map_option (\<lambda>(m, out, bp). quote_of p m out) best"



text \<open>
  Two searches of the same pool for the targets \<open>T1 \<le> T2\<close> that have taken the same
  turns so far stand at the same bounds. Every candidate they have seen lies below
  \<open>low\<close> with an impact under both bands, or above \<open>high\<close> with an impact over both
  bands (\<open>sided\<close>); \<open>paired\<close> relates the best candidates of the two.
\<close>

definition sided :: "int \<Rightarrow> int \<Rightarrow> int \<Rightarrow> int \<Rightarrow> int \<Rightarrow> int \<Rightarrow> bool" where
  "sided T1 T2 low high m bp = ((m < low \<and> bp < T1 - 50) \<or> (high < m \<and> T2 + 50 < bp))"




section \<open>JavaScript numbers: rounding\<close>

subsection \<open>The binary exponent\<close>

lemma floorlog2_bounds:
  assumes "0 < a"
  shows "2 powi floorlog2 a \<le> a" and "a < 2 powi (floorlog2 a + 1)"
proof -
  obtain n d where q: "quotient_of a = (n, d)" by (cases "quotient_of a")
  have d: "0 < d" using quotient_of_denom_pos [OF q] .
  have a: "a = of_int n / of_int d" using quotient_of_div [OF q] .
  have n: "0 < n" using assms d unfolding a by (simp add: zero_less_divide_iff)
  define bn where "bn = bitlen n"
  define bd where "bd = bitlen d"
  have bn: "2 ^ nat (bn - 1) \<le> n" "n < 2 ^ nat bn" "1 \<le> bn"
    using bitlen_bounds [OF n] n unfolding bn_def by (auto simp: bitlen_alt_def)
  have bd: "2 ^ nat (bd - 1) \<le> d" "d < 2 ^ nat bd" "1 \<le> bd"
    using bitlen_bounds [OF d] d unfolding bd_def by (auto simp: bitlen_alt_def)
  have n1: "(2::rat) powi (bn - 1) \<le> of_int n"
  proof -
    have "(of_int (2 ^ nat (bn - 1)) :: rat) \<le> of_int n" using bn(1) by (simp only: of_int_le_iff)
    thus ?thesis using bn(3) by (simp add: power_int_def)
  qed
  have n2: "(of_int n :: rat) < 2 powi bn"
  proof -
    have "(of_int n :: rat) < of_int (2 ^ nat bn)" using bn(2) by (simp only: of_int_less_iff)
    thus ?thesis using bn(3) by (simp add: power_int_def)
  qed
  have d1: "(2::rat) powi (bd - 1) \<le> of_int d"
  proof -
    have "(of_int (2 ^ nat (bd - 1)) :: rat) \<le> of_int d" using bd(1) by (simp only: of_int_le_iff)
    thus ?thesis using bd(3) by (simp add: power_int_def)
  qed
  have d2: "(of_int d :: rat) < 2 powi bd"
  proof -
    have "(of_int d :: rat) < of_int (2 ^ nat bd)" using bd(2) by (simp only: of_int_less_iff)
    thus ?thesis using bd(3) by (simp add: power_int_def)
  qed
  have dpos: "(0::rat) < of_int d" using d by simp
  have lower: "(2::rat) powi (bn - bd - 1) \<le> a"
  proof -
    have "(2::rat) powi (bn - bd - 1) * of_int d \<le> 2 powi (bn - bd - 1) * 2 powi bd"
      using d2 by (intro mult_left_mono) auto
    also have "\<dots> = 2 powi (bn - 1)"
      by (simp flip: power_int_add)
    also have "\<dots> \<le> of_int n" by (rule n1)
    finally show ?thesis unfolding a using dpos by (simp add: pos_le_divide_eq)
  qed
  have upper: "a < (2::rat) powi (bn - bd + 1)"
  proof -
    have "(of_int n :: rat) < 2 powi bn" by (rule n2)
    also have "\<dots> = 2 powi (bn - bd + 1) * 2 powi (bd - 1)"
      by (simp flip: power_int_add)
    also have "\<dots> \<le> 2 powi (bn - bd + 1) * of_int d"
      using d1 by (intro mult_left_mono) auto
    finally show ?thesis unfolding a using dpos by (simp add: pos_divide_less_eq)
  qed
  have fl: "floorlog2 a = (if 2 powi (bn - bd) \<le> a then bn - bd else bn - bd - 1)"
    unfolding floorlog2_def q bn_def bd_def by (simp add: Let_def)
  show "2 powi floorlog2 a \<le> a" using lower unfolding fl by simp
  show "a < 2 powi (floorlog2 a + 1)" using upper unfolding fl by (simp add: not_le)
qed

lemma floorlog2_unique:
  assumes "2 powi e \<le> a" and "a < 2 powi (e + 1)"
  shows "floorlog2 a = e"
proof -
  have pos: "0 < a" using assms(1) by (rule less_le_trans [rotated]) simp
  note b = floorlog2_bounds [OF pos]
  have "(2::rat) powi e < 2 powi (floorlog2 a + 1)" using assms(1) b(2) by simp
  hence 1: "e < floorlog2 a + 1"
    by (metis power_int_increasing not_le one_le_numeral)
  have "(2::rat) powi floorlog2 a < 2 powi (e + 1)" using assms(2) b(1) by simp
  hence 2: "floorlog2 a < e + 1"
    by (metis power_int_increasing not_le one_le_numeral)
  show ?thesis using 1 2 by simp
qed


subsection \<open>Rounding is monotone, and exact on doubles\<close>

lemma round_half_even_of_int [simp]: "round_half_even (of_int k) = k"
  by (simp add: round_half_even_def)

lemma round_half_even_mono:
  assumes "q \<le> r"
  shows "round_half_even q \<le> round_half_even r"
proof -
  have f: "\<lfloor>q\<rfloor> \<le> \<lfloor>r\<rfloor>" using assms by (rule floor_mono)
  show ?thesis
  proof (cases "\<lfloor>q\<rfloor> = \<lfloor>r\<rfloor>")
    case True
    thus ?thesis using assms by (auto simp: round_half_even_def Let_def)
  next
    case False
    hence "\<lfloor>q\<rfloor> + 1 \<le> \<lfloor>r\<rfloor>" using f by simp
    moreover have "round_half_even q \<le> \<lfloor>q\<rfloor> + 1" by (simp add: round_half_even_def Let_def)
    moreover have "\<lfloor>r\<rfloor> \<le> round_half_even r" by (simp add: round_half_even_def Let_def)
    ultimately show ?thesis by simp
  qed
qed

lemma round_half_even_ge: "of_int k \<le> q \<Longrightarrow> k \<le> round_half_even q"
  using round_half_even_mono [of "of_int k" q] by simp

lemma round_half_even_le: "q \<le> of_int k \<Longrightarrow> round_half_even q \<le> k"
  using round_half_even_mono [of q "of_int k"] by simp


lemma ulp_exponent_of_scaled:
  assumes "0 < m" and "m < 2 ^ 53" and "- 1074 \<le> e"
  shows "ulp_exponent (of_int m * 2 powi e) \<le> e"
proof -
  let ?a = "of_int m * 2 powi e :: rat"
  have pos: "0 < ?a" using assms(1) by simp
  have "(of_int m :: rat) < of_int (2 ^ 53)" using assms(2) by (simp only: of_int_less_iff)
  hence "?a < 2 ^ 53 * 2 powi e" by simp
  also have "\<dots> = 2 powi (53 + e)" by (simp add: power_int_add)
  finally have "(2::rat) powi floorlog2 ?a < 2 powi (53 + e)"
    using floorlog2_bounds(1) [OF pos] by simp
  hence "floorlog2 ?a < 53 + e"
    by (metis power_int_increasing not_le one_le_numeral)
  thus ?thesis using assms(3) by (simp add: ulp_exponent_def)
qed

lemma round_magnitude_scaled:
  assumes "0 < m" and "m < 2 ^ 53" and "- 1074 \<le> e"
  shows "round_magnitude (of_int m * 2 powi e) = of_int m * 2 powi e"
proof -
  let ?a = "of_int m * 2 powi e :: rat"
  define u where "u = ulp_exponent ?a"
  have u: "u \<le> e" unfolding u_def by (rule ulp_exponent_of_scaled [OF assms])
  have "(2::rat) powi e = 2 powi (e - u) * 2 powi u" by (simp flip: power_int_add)
  also have "(2::rat) powi (e - u) = of_int (2 ^ nat (e - u))" using u by (simp add: power_int_def)
  finally have "?a / 2 powi u = of_int (m * 2 ^ nat (e - u))" by simp
  hence "round_half_even (?a / 2 powi u) = m * 2 ^ nat (e - u)"
    by (simp only: round_half_even_of_int)
  hence "round_magnitude ?a = of_int (m * 2 ^ nat (e - u)) * 2 powi u"
    unfolding round_magnitude_def u_def by simp
  also have "\<dots> = of_int m * (2 powi (e - u) * 2 powi u)"
    using u by (simp add: power_int_def)
  also have "\<dots> = ?a" by (simp flip: power_int_add)
  finally show ?thesis .
qed

lemma round_magnitude_int:
  assumes "0 < k" and "k \<le> 2 ^ 53"
  shows "round_magnitude (of_int k) = of_int k"
proof (cases "k = 2 ^ 53")
  case True
  have "round_magnitude (of_int (2 ^ 52) * 2 powi 1) = of_int (2 ^ 52) * 2 powi 1"
    by (rule round_magnitude_scaled) simp_all
  thus ?thesis unfolding True by simp
next
  case False
  have "round_magnitude (of_int k * 2 powi 0) = of_int k * 2 powi 0"
    by (rule round_magnitude_scaled) (use assms False in simp_all)
  thus ?thesis by simp
qed

lemma round_double_int:
  assumes "\<bar>k\<bar> \<le> 2 ^ 53"
  shows "round_double (of_int k) = Finite (of_int k)"
proof (cases "k = 0")
  case True
  thus ?thesis by (simp add: round_double_def)
next
  case False
  hence pos: "0 < \<bar>k\<bar>" by simp
  have m: "round_magnitude \<bar>of_int k\<bar> = of_int \<bar>k\<bar>"
    using round_magnitude_int [OF pos assms] by simp
  have "(of_int \<bar>k\<bar> :: rat) \<le> of_int (2 ^ 53)" using assms by (simp only: of_int_le_iff)
  also have "\<dots> < 2 ^ 1024" by simp
  finally have small: "\<not> (2::rat) ^ 1024 \<le> of_int \<bar>k\<bar>" by simp
  show ?thesis
    unfolding round_double_def m using False small by (auto simp: Let_def)
qed


lemma round_magnitude_nonneg:
  assumes "0 < a"
  shows "0 \<le> round_magnitude a"
proof -
  have "(0::rat) \<le> a / 2 powi ulp_exponent a" using assms by simp
  hence "0 \<le> round_half_even (a / 2 powi ulp_exponent a)"
    using round_half_even_ge [of 0] by simp
  thus ?thesis unfolding round_magnitude_def by simp
qed


lemma round_double_pos:
  assumes "0 < x"
  shows "round_double x = (if 2 ^ 1024 \<le> round_magnitude x then Infinity
                            else Finite (round_magnitude x))"
  using assms by (simp add: round_double_def Let_def)

lemma round_double_neg:
  assumes "x < 0"
  shows "round_double x = (if 2 ^ 1024 \<le> round_magnitude (- x) then MinusInfinity
                            else Finite (- round_magnitude (- x)))"
  using assms by (simp add: round_double_def Let_def)

lemma round_double_0 [simp]: "round_double 0 = Finite 0"
  by (simp add: round_double_def)



subsection \<open>Rounding a given decimal\<close>

lemma round_double_normal:
  assumes "2 powi e \<le> x" and "x < 2 powi (e + 1)" and "- 1022 \<le> e" and "e \<le> 1022"
  shows "round_double x = Finite (of_int (round_half_even (x / 2 powi (e - 52))) * 2 powi (e - 52))"
proof -
  have pos: "0 < x" using assms(1) by (rule less_le_trans [rotated]) simp
  have fl: "floorlog2 x = e" using assms(1,2) by (rule floorlog2_unique)
  have u: "ulp_exponent x = e - 52" using assms(3) by (simp add: ulp_exponent_def fl)
  have "x / 2 powi (e - 52) \<le> 2 powi (e + 1) / 2 powi (e - 52)"
    using assms(2) by (simp add: divide_right_mono)
  also have "\<dots> = 2 powi ((e + 1) - (e - 52))" by (rule power_int_diff [symmetric]) simp
  also have "\<dots> = of_int (2 ^ 53)" by simp
  finally have "round_half_even (x / 2 powi (e - 52)) \<le> 2 ^ 53" by (rule round_half_even_le)
  hence "(of_int (round_half_even (x / 2 powi (e - 52))) :: rat) \<le> of_int (2 ^ 53)"
    by (simp only: of_int_le_iff)
  hence "round_magnitude x \<le> of_int (2 ^ 53) * 2 powi (e - 52)"
    unfolding round_magnitude_def u by (intro mult_right_mono) simp_all
  also have "\<dots> = 2 powi 53 * 2 powi (e - 52)" by simp
  also have "\<dots> = 2 powi (53 + (e - 52))" by (rule power_int_add [symmetric]) simp
  also have "\<dots> = 2 powi (e + 1)" by (simp add: algebra_simps)
  also have "\<dots> \<le> 2 powi 1023" using assms(4) by (intro power_int_increasing) simp_all
  also have "\<dots> < 2 ^ 1024" by simp
  finally have "\<not> 2 ^ 1024 \<le> round_magnitude x" by simp
  thus ?thesis
    using pos by (simp add: round_double_pos round_magnitude_def u)
qed

lemma round_half_even_fraction:
  assumes "0 < b"
  shows "round_half_even (of_int a / of_int b) =
     (if 2 * (a mod b) < b then a div b
      else if b < 2 * (a mod b) then a div b + 1
      else if even (a div b) then a div b else a div b + 1)"
proof -
  have f: "\<lfloor>(of_int a / of_int b :: rat)\<rfloor> = a div b" by (rule floor_divide_of_int_eq)
  have "(of_int a :: rat) = of_int (a div b * b + a mod b)" by (simp only: div_mult_mod_eq)
  also have "\<dots> = of_int (a div b) * of_int b + of_int (a mod b)"
    by (simp only: of_int_add of_int_mult)
  finally have r: "(of_int a / of_int b :: rat) - of_int (a div b) = of_int (a mod b) / of_int b"
    using assms by (simp add: field_simps)
  have lt: "((of_int (a mod b) / of_int b :: rat) < 1 / 2) = (2 * (a mod b) < b)"
  proof -
    have "((of_int (a mod b) / of_int b :: rat) < 1 / 2) = ((of_int (2 * (a mod b)) :: rat) < of_int b)"
      using assms by (simp add: field_simps)
    thus ?thesis by (simp only: of_int_less_iff)
  qed
  have gt: "(1 / 2 < (of_int (a mod b) / of_int b :: rat)) = (b < 2 * (a mod b))"
  proof -
    have "(1 / 2 < (of_int (a mod b) / of_int b :: rat)) = ((of_int b :: rat) < of_int (2 * (a mod b)))"
      using assms by (simp add: field_simps)
    thus ?thesis by (simp only: of_int_less_iff)
  qed
  show ?thesis
    unfolding round_half_even_def Let_def f r lt gt ..
qed

lemma round_half_even_numeral:
  "round_half_even (numeral a / numeral b) =
     (if 2 * (numeral a mod numeral b) < (numeral b :: int) then numeral a div numeral b
      else if (numeral b :: int) < 2 * (numeral a mod numeral b) then numeral a div numeral b + 1
      else if even (numeral a div numeral b :: int) then numeral a div numeral b
      else numeral a div numeral b + 1)"
  using round_half_even_fraction [of "numeral b" "numeral a"] by simp

lemma floor_rat_numeral:
  "\<lfloor>numeral a / numeral b :: rat\<rfloor> = numeral a div numeral b"
  using floor_divide_of_int_eq [of "numeral a" "numeral b", where ?'a = rat] by simp

lemma round_double_numeral:
  "(numeral n :: int) \<le> 9007199254740992 \<Longrightarrow> round_double (numeral n) = Finite (numeral n)"
  using round_double_int [of "numeral n"] by simp

lemma round_double_neg_numeral:
  "(numeral n :: int) \<le> 9007199254740992 \<Longrightarrow> round_double (- numeral n) = Finite (- numeral n)"
  using round_double_int [of "- numeral n"] by simp

lemma round_double_1 [simp]: "round_double 1 = Finite 1"
  using round_double_int [of 1] by simp

lemma double_001: "round_double (1 / 100) = Finite (5764607523034235 / 576460752303423488)"
  by (subst round_double_normal [where e = "- 7"]) (simp_all add: round_half_even_numeral power_int_minus)

lemma double_005: "round_double (5 / 100) = Finite (3602879701896397 / 72057594037927936)"
  by (subst round_double_normal [where e = "- 5"]) (simp_all add: round_half_even_numeral power_int_minus)

lemma double_005_normal: "round_double (1 / 20) = Finite (3602879701896397 / 72057594037927936)"
  using double_005 by simp

lemma double_01: "round_double (1 / 10) = Finite (3602879701896397 / 36028797018963968)"
  by (subst round_double_normal [where e = "- 4"]) (simp_all add: round_half_even_numeral power_int_minus)

subsection \<open>The order of numbers\<close>

lemma js_less_iff: "js_less a b \<longleftrightarrow> \<not> js_le b a"
  by (cases a; cases b) auto

lemma js_le_refl [simp]: "js_le a a"
  by (cases a) auto

lemma js_le_trans: "js_le a b \<Longrightarrow> js_le b c \<Longrightarrow> js_le a c"
  by (cases a; cases b; cases c) auto

lemma js_less_trans: "js_less a b \<Longrightarrow> js_less b c \<Longrightarrow> js_less a c"
  by (cases a; cases b; cases c) auto

lemma js_le_less_trans: "js_le a b \<Longrightarrow> js_less b c \<Longrightarrow> js_less a c"
  by (cases a; cases b; cases c) auto

lemma js_less_imp_le: "js_less a b \<Longrightarrow> js_le a b"
  by (cases a; cases b) auto


subsection \<open>Rounding between two integers, and rounding a double\<close>


lemma round_double_idem:
  assumes "round_double x = Finite r"
  shows "round_double r = Finite r"
proof -
  have mag: "round_magnitude (round_magnitude a) = round_magnitude a"
    if a: "0 < a" and pos: "0 < round_magnitude a" for a
  proof -
    define u where "u = ulp_exponent a"
    define m where "m = round_half_even (a / 2 powi u)"
    have r: "round_magnitude a = of_int m * 2 powi u"
      by (simp add: round_magnitude_def u_def m_def)
    have u: "- 1074 \<le> u" by (simp add: u_def ulp_exponent_def)
    have "a < 2 powi (floorlog2 a + 1)" by (rule floorlog2_bounds(2) [OF a])
    also have "\<dots> \<le> 2 powi (u + 53)"
      unfolding u_def ulp_exponent_def by (intro power_int_increasing) simp_all
    finally have "a / 2 powi u \<le> 2 powi (u + 53) / 2 powi u"
      by (simp add: divide_right_mono)
    also have "\<dots> = of_int (2 ^ 53)" by (simp add: power_int_add)
    finally have le: "m \<le> 2 ^ 53" unfolding m_def by (rule round_half_even_le)
    have "(0::rat) < 2 powi u" by simp
    with pos have "(0::rat) < of_int m" unfolding r by (rule zero_less_mult_pos2)
    hence m: "0 < m" by simp
    show ?thesis
    proof (cases "m = 2 ^ 53")
      case True
      have "round_magnitude (of_int (2 ^ 52) * 2 powi (u + 1)) = of_int (2 ^ 52) * 2 powi (u + 1)"
        by (rule round_magnitude_scaled) (use u in simp_all)
      moreover have "(of_int (2 ^ 52) :: rat) * 2 powi (u + 1) = of_int m * 2 powi u"
        unfolding True by (simp add: power_int_add)
      ultimately show ?thesis unfolding r by simp
    next
      case False
      hence "m < 2 ^ 53" using le by simp
      thus ?thesis unfolding r using m u by (intro round_magnitude_scaled)
    qed
  qed
  show ?thesis
  proof (cases "x = 0")
    case True
    thus ?thesis using assms by simp
  next
    case False
    show ?thesis
    proof (cases "0 < x")
      case True
      hence r: "r = round_magnitude x" and small: "\<not> 2 ^ 1024 \<le> round_magnitude x"
        using assms by (auto simp: round_double_pos split: if_splits)
      show ?thesis
      proof (cases "r = 0")
        case True
        thus ?thesis by simp
      next
        case F: False
        hence pos: "0 < round_magnitude x"
          using round_magnitude_nonneg [OF True] r by simp
        hence "round_magnitude r = r" unfolding r using True by (intro mag)
        thus ?thesis using pos small unfolding r by (simp add: round_double_pos)
      qed
    next
      case neg: False
      hence x: "x < 0" using False by simp
      hence r: "r = - round_magnitude (- x)" and small: "\<not> 2 ^ 1024 \<le> round_magnitude (- x)"
        using assms by (auto simp: round_double_neg split: if_splits)
      show ?thesis
      proof (cases "r = 0")
        case True
        thus ?thesis by simp
      next
        case F: False
        have "0 \<le> round_magnitude (- x)" by (rule round_magnitude_nonneg) (use x in simp)
        hence pos: "0 < round_magnitude (- x)" using F r by simp
        hence "round_magnitude (round_magnitude (- x)) = round_magnitude (- x)"
          using x by (intro mag) simp_all
        thus ?thesis using pos small unfolding r by (simp add: round_double_neg)
      qed
    qed
  qed
qed

subsection \<open>The three levels of the service\<close>

lemma times_10000:
  "js_times (round_double (1 / 100)) 10000 = Finite 100"
  "js_times (round_double (5 / 100)) 10000 = Finite 500"
  "js_times (round_double (1 / 10)) 10000 = Finite 1000"
  unfolding double_001 double_005 double_01 js_times.simps
  by (subst round_double_normal [where e = 6], simp_all add: round_half_even_numeral power_int_minus,
      subst round_double_normal [where e = 8], simp_all add: round_half_even_numeral power_int_minus,
      subst round_double_normal [where e = 9], simp_all add: round_half_even_numeral power_int_minus)

lemma targetSlippageBP_levels:
  "targetSlippage p = 1 / 100 \<Longrightarrow> targetSlippageBP p = Finite 100"
  "targetSlippage p = 5 / 100 \<Longrightarrow> targetSlippageBP p = Finite 500"
  "targetSlippage p = 1 / 10 \<Longrightarrow> targetSlippageBP p = Finite 1000"
  unfolding targetSlippageBP_def by (simp_all only: times_10000 js_floor.simps floor_numeral of_int_numeral)



lemma maxTradePercent_levels:
  "targetSlippage p = 1 / 100 \<Longrightarrow> maxTradePercent p = 20"
  "targetSlippage p = 5 / 100 \<Longrightarrow> maxTradePercent p = 20"
  "targetSlippage p = 1 / 10 \<Longrightarrow> maxTradePercent p = 60"
  unfolding maxTradePercent_def by (simp_all only: double_001 double_005 double_01, simp_all)

lemma double_0071: "round_double (71 / 1000) = Finite (5116089176692883 / 72057594037927936)"
  by (subst round_double_normal [where e = "- 4"]) (simp_all add: round_half_even_numeral power_int_minus)

text \<open>
  A target of 7.1% is 709 basis points to the search, not 710: the double 0.071 times
  10000 is 709.9999999999999.
\<close>

lemma target_0071:
  assumes "targetSlippage p = 71 / 1000"
  shows "targetSlippageBP p = Finite 709"
proof -
  have "js_times (round_double (71 / 1000)) 10000 = Finite (6245226045767679 / 8796093022208)"
    unfolding double_0071 js_times.simps
    by (subst round_double_normal [where e = 9]) (simp_all add: round_half_even_numeral power_int_minus)
  thus ?thesis
    unfolding targetSlippageBP_def assms by (simp add: floor_rat_numeral)
qed

section \<open>The slippage search: what it returns\<close>

subsection \<open>Zero reserves\<close>

text \<open>
  C3. When \<open>reserveSell\<close> or \<open>reserveBuy\<close> is zero, \<open>calculateSlippageQuote\<close> fails with the
  zero-reserves error and the oracle is never called: the log of the search is empty.
\<close>

theorem zero_reserves_fail_fast:
  assumes "reserveSell p = 0 \<or> reserveBuy p = 0"
  shows "calculateSlippageQuote p = (Inl ZeroReserves, [])
       \<and> filter is_oracle_call (snd (calculateSlippageQuote p)) = []"
  using assms by (simp add: calculateSlippageQuote_def)

theorem zero_reserves_fail_fast_witness:
  "(reserveSell (shallow_pool\<lparr>reserveSell := 0\<rparr>) = 0
      \<or> reserveBuy (shallow_pool\<lparr>reserveSell := 0\<rparr>) = 0)
   \<and> calculateSlippageQuote (shallow_pool\<lparr>reserveSell := 0\<rparr>) = (Inl ZeroReserves, [])
   \<and> filter is_oracle_call (snd (calculateSlippageQuote (shallow_pool\<lparr>reserveSell := 0\<rparr>))) = []"
  using zero_reserves_fail_fast [of "shallow_pool\<lparr>reserveSell := 0\<rparr>"] by simp

subsection \<open>The loop, one iteration at a time\<close>

lemma search_loop_stops:
  "\<not> (i < 15 \<and> low \<le> high) \<Longrightarrow> search_loop p i low high best bd = (best, [])"
  by (subst search_loop.simps) auto

lemma search_loop_length:
  "length (snd (search_loop p i low high best bd)) \<le> 15 - i"
proof (induction p i low high best bd rule: search_loop.induct)
  case (1 p i low high bestResult bestDiffBP)
  show ?case
    apply (subst search_loop.simps)
    using 1
    apply (auto simp: logged_def split: outcome.splits)
    done
qed

lemma fst_logged [simp]: "fst (logged e r) = fst r"
  by (simp add: logged_def)

lemma snd_logged [simp]: "snd (logged e r) = e # snd r"
  by (simp add: logged_def)

lemma tdiv_nonneg: "0 \<le> a \<Longrightarrow> 0 < b \<Longrightarrow> tdiv a b = a div b"
  by (cases "a = 0") (simp_all add: tdiv_def)

lemma iteration_event_mid:
  "iteration p mid best bd = Accepted q e \<Longrightarrow> event_mid e = mid"
  "iteration p mid best bd = SetHigh e best' bd' \<Longrightarrow> event_mid e = mid"
  "iteration p mid best bd = SetLow e best' bd' \<Longrightarrow> event_mid e = mid"
  by (auto simp: iteration_def Let_def split: if_splits probe.splits option.splits)

lemma first_event:
  assumes "i < 15" and "low \<le> high"
  shows "\<exists>e evs. snd (search_loop p i low high best bd) = e # evs
           \<and> event_mid e = tdiv (low + high) 2"
proof (cases "iteration p (tdiv (low + high) 2) best bd")
  case (Accepted q e)
  then show ?thesis
    using assms iteration_event_mid(1) [OF Accepted] by (subst search_loop.simps) simp
next
  case (SetHigh e best' bd')
  then show ?thesis
    using assms iteration_event_mid(2) [OF SetHigh]
    by (subst search_loop.simps) (simp add: logged_def)
next
  case (SetLow e best' bd')
  then show ?thesis
    using assms iteration_event_mid(3) [OF SetLow]
    by (subst search_loop.simps) (simp add: logged_def)
qed

text \<open>
  When \<open>formatUnits\<close> takes the decimals of both tokens, the loop body builds its quotes
  without a throw. When it does not, no quote is ever built.
\<close>

lemma quote_at_formats: "formats p \<Longrightarrow> quote_at p mid amountOut = Some (quote_of p mid amountOut)"
  by (simp add: quote_at_def formatUnits_def formats_def quote_of_def)

lemma quote_at_unformatted: "\<not> formats p \<Longrightarrow> quote_at p mid amountOut = None"
  by (auto simp: quote_at_def formatUnits_def formats_def)

lemma iteration_alt:
  assumes "formats p"
  shows "iteration p mid bestResult bestDiffBP =
     (if mid = 0 \<or> mid \<ge> tdiv (reserveSell p) 2 then SetHigh (Skipped mid) bestResult bestDiffBP
      else
        (case probe_at p mid of
           Threw \<Rightarrow> SetHigh (Caught mid) bestResult bestDiffBP
         | ZeroOut \<Rightarrow> SetHigh (ZeroOutput mid) bestResult bestDiffBP
         | Impact amountOut bp \<Rightarrow>
             if js_le (diffBP_of p bp) toleranceBP then
               Accepted (quote_of p mid amountOut) (Candidate mid amountOut bp)
             else if js_less (diffBP_of p bp) bestDiffBP then
               (if js_less (Finite (of_int bp)) (targetSlippageBP p)
                then SetLow (Candidate mid amountOut bp)
                       (Some (quote_of p mid amountOut)) (diffBP_of p bp)
                else SetHigh (Candidate mid amountOut bp)
                       (Some (quote_of p mid amountOut)) (diffBP_of p bp))
             else
               (if js_less (Finite (of_int bp)) (targetSlippageBP p)
                then SetLow (Candidate mid amountOut bp) bestResult bestDiffBP
                else SetHigh (Candidate mid amountOut bp) bestResult bestDiffBP)))"
  unfolding iteration_def diffBP_of_def Let_def quote_at_formats [OF assms] option.case ..

lemma iteration_Accepted:
  assumes "formats p" and "iteration p mid best bd = Accepted q e"
  shows "\<exists>amountOut bp. e = Candidate mid amountOut bp \<and> q = quote_of p mid amountOut \<and>
    probe_at p mid = Impact amountOut bp \<and> js_le (diffBP_of p bp) toleranceBP"
  using assms(2) unfolding iteration_alt [OF assms(1)]
  by (auto split: if_split_asm probe.split_asm)

lemma iteration_SetHigh:
  assumes "formats p" and "iteration p mid best bd = SetHigh e best' bd'"
  shows "(\<not> is_candidate e \<and> best' = best \<and> bd' = bd)
   \<or> (\<exists>amountOut bp. e = Candidate mid amountOut bp \<and> probe_at p mid = Impact amountOut bp \<and>
      \<not> js_le (diffBP_of p bp) toleranceBP \<and> \<not> js_less (Finite (of_int bp)) (targetSlippageBP p) \<and>
      (if js_less (diffBP_of p bp) bd
       then best' = Some (quote_of p mid amountOut) \<and> bd' = diffBP_of p bp
       else best' = best \<and> bd' = bd))"
  using assms(2) unfolding iteration_alt [OF assms(1)]
  by (auto split: if_split_asm probe.split_asm)

lemma iteration_SetLow:
  assumes "formats p" and "iteration p mid best bd = SetLow e best' bd'"
  shows "\<exists>amountOut bp. e = Candidate mid amountOut bp \<and> probe_at p mid = Impact amountOut bp \<and>
      \<not> js_le (diffBP_of p bp) toleranceBP \<and> js_less (Finite (of_int bp)) (targetSlippageBP p) \<and>
      (if js_less (diffBP_of p bp) bd
       then best' = Some (quote_of p mid amountOut) \<and> bd' = diffBP_of p bp
       else best' = best \<and> bd' = bd)"
  using assms(2) unfolding iteration_alt [OF assms(1)]
  by (auto split: if_split_asm probe.split_asm)

lemma iteration_unformatted:
  assumes "\<not> formats p"
  shows "case iteration p mid best bd of
           Accepted q e \<Rightarrow> False
         | SetHigh e best' bd' \<Rightarrow> best' = best
         | SetLow e best' bd' \<Rightarrow> best' = best"
  unfolding iteration_def Let_def quote_at_unformatted [OF assms] option.case
  by (auto split: probe.splits)

lemma unformatted_search:
  assumes "\<not> formats p"
  shows "fst (search_loop p i low high best bd) = best"
  using assms
proof (induction p i low high best bd rule: search_loop.induct)
  case (1 p i low high best bd)
  note nf = "1.prems"
  note it = iteration_unformatted [OF nf, where mid = "tdiv (low + high) 2" and best = best and bd = bd]
  show ?case
  proof (cases "i < 15 \<and> low \<le> high")
    case False
    then show ?thesis by (simp add: search_loop_stops)
  next
    case True
    show ?thesis
    proof (cases "iteration p (tdiv (low + high) 2) best bd")
      case (Accepted q e)
      with it show ?thesis by simp
    next
      case (SetHigh e best' bd')
      with it have "best' = best" by simp
      with "1.IH"(1) [OF True SetHigh nf] SetHigh True show ?thesis
        by (subst search_loop.simps) (simp add: logged_def)
    next
      case (SetLow e best' bd')
      with it have "best' = best" by simp
      with "1.IH"(2) [OF True SetLow nf] SetLow True show ?thesis
        by (subst search_loop.simps) (simp add: logged_def)
    qed
  qed
qed

lemma power_10_div_1000: "3 \<le> d \<Longrightarrow> (10::int) ^ d div 1000 = 10 ^ (d - 3)"
proof -
  assume d: "3 \<le> d"
  have "(10::int) ^ ((d - 3) + 3) = 10 ^ (d - 3) * 10 ^ 3" by (rule power_add)
  then have "(10::int) ^ d = 10 ^ (d - 3) * 1000" using d by simp
  then show ?thesis by simp
qed

lemma calculateSlippageQuote_search:
  assumes "reserveSell p \<noteq> 0" and "reserveBuy p \<noteq> 0"
    and "3 \<le> sellTokenDecimals p" and "sellTokenDecimals p \<le> 256"
    and "r = search_loop p 0 (10 ^ (sellTokenDecimals p - 3))
               (tdiv (reserveSell p * maxTradePercent p) 100) None Infinity"
  shows "calculateSlippageQuote p =
     (case fst r of
        None \<Rightarrow> (Inl (NoQuoteFound (percent (targetSlippage p))), snd r)
      | Some bestResult \<Rightarrow> (Inr bestResult, snd r))"
  unfolding assms(5) using assms(1-4)
  by (simp add: calculateSlippageQuote_def parseUnits_milli_def Let_def)

subsection \<open>At most fifteen iterations\<close>

text \<open>
  C8. The loop of \<open>calculateSlippageQuote\<close> runs at most 15 iterations, whatever the
  input, and so asks the oracle at most 15 times: the search logs one event for each
  iteration it runs, and an event is an oracle call unless it is a skipped iteration.
\<close>

theorem at_most_fifteen_iterations:
  "length (snd (calculateSlippageQuote p)) \<le> 15
   \<and> length (filter is_oracle_call (snd (calculateSlippageQuote p))) \<le> 15"
proof -
  have "length (snd (calculateSlippageQuote p)) \<le> 15"
    using search_loop_length [of p 0]
    by (auto simp: calculateSlippageQuote_def Let_def split: option.splits sum.splits)
  moreover have "length (filter is_oracle_call (snd (calculateSlippageQuote p)))
      \<le> length (snd (calculateSlippageQuote p))"
    by (rule length_filter_le)
  ultimately show ?thesis by linarith
qed

theorem at_most_fifteen_iterations_witness:
  "length (snd (calculateSlippageQuote (small_pool (1 / 10)))) \<le> 15
   \<and> length (filter is_oracle_call (snd (calculateSlippageQuote (small_pool (1 / 10))))) \<le> 15"
  using at_most_fifteen_iterations [of "small_pool (1 / 10)"] .

subsection \<open>The initial bounds\<close>

lemma small_pool_fields:
  "router (small_pool t) = constant_product 55000000000000000 55000000000000000"
  "reserveSell (small_pool t) = 55000000000000000"
  "reserveBuy (small_pool t) = 55000000000000000"
  "targetSlippage (small_pool t) = t"
  "sellTokenDecimals (small_pool t) = 18"
  "buyTokenDecimals (small_pool t) = 18"
  by (simp_all add: small_pool_def)

text \<open>
  C9. For a pool with a positive sell reserve, a non-zero buy reserve and a sell token
  of 3 to 256 decimals, the search is the loop started, with no best result, at
  \<open>low = 10 ^ sellTokenDecimals / 1000\<close>, which is 0.001 units of the sell token, and
  \<open>high = reserveSell * p / 100\<close> rounded down, where \<open>p\<close> is 60 when the target is at
  least the double 0.1 and 20 otherwise. Where \<open>low \<le> high\<close> the first trade size the
  search tries is the midpoint \<open>(low + high) / 2\<close>, rounded down, and otherwise it tries
  none.
\<close>

theorem initial_search_bounds:
  assumes "0 < reserveSell p" and "reserveBuy p \<noteq> 0"
    and "3 \<le> sellTokenDecimals p" and "sellTokenDecimals p \<le> 256"
    and "percentage = (if js_le (round_double (1 / 10)) (round_double (targetSlippage p))
                       then 60 else 20)"
    and "low = 10 ^ sellTokenDecimals p div 1000"
    and "high = reserveSell p * percentage div 100"
    and "r = search_loop p 0 low high None Infinity"
  shows "calculateSlippageQuote p =
           (case fst r of
              None \<Rightarrow> (Inl (NoQuoteFound (percent (targetSlippage p))), snd r)
            | Some bestResult \<Rightarrow> (Inr bestResult, snd r))
       \<and> (if low \<le> high
          then \<exists>e evs. snd (calculateSlippageQuote p) = e # evs \<and> event_mid e = (low + high) div 2
          else snd (calculateSlippageQuote p) = [])"
proof -
  have pct: "percentage = maxTradePercent p" and pos: "0 < percentage"
    unfolding assms(5) by (simp_all add: maxTradePercent_def)
  have low: "low = 10 ^ (sellTokenDecimals p - 3)"
    unfolding assms(6) using assms(3) by (rule power_10_div_1000)
  have "0 \<le> reserveSell p * percentage" using assms(1) pos by simp
  then have high: "high = tdiv (reserveSell p * maxTradePercent p) 100"
    unfolding assms(7) pct [symmetric] by (simp add: tdiv_nonneg)
  have calc: "calculateSlippageQuote p =
           (case fst r of
              None \<Rightarrow> (Inl (NoQuoteFound (percent (targetSlippage p))), snd r)
            | Some bestResult \<Rightarrow> (Inr bestResult, snd r))"
    using assms(1-4) by (intro calculateSlippageQuote_search) (simp_all add: assms(8) low high)
  then have log: "snd (calculateSlippageQuote p) = snd r"
    by (cases "fst r") simp_all
  have "0 < low" unfolding low by simp
  show ?thesis
  proof (cases "low \<le> high")
    case True
    then have "0 \<le> low + high" using \<open>0 < low\<close> by simp
    then have "tdiv (low + high) 2 = (low + high) div 2" by (simp add: tdiv_nonneg)
    with first_event [of 0 low high p None Infinity] True calc show ?thesis
      unfolding log assms(8) by simp
  next
    case False
    then have "search_loop p 0 low high None Infinity = (None, [])"
      by (simp add: search_loop_stops)
    with False calc show ?thesis unfolding log assms(8) by simp
  qed
qed

theorem initial_search_bounds_witness:
  "0 < reserveSell (small_pool (1 / 10)) \<and> reserveBuy (small_pool (1 / 10)) \<noteq> 0
   \<and> 3 \<le> sellTokenDecimals (small_pool (1 / 10)) \<and> sellTokenDecimals (small_pool (1 / 10)) \<le> 256
   \<and> (10::int) ^ sellTokenDecimals (small_pool (1 / 10)) div 1000 = 1000000000000000
   \<and> reserveSell (small_pool (1 / 10)) * 60 div 100 = 33000000000000000
   \<and> calculateSlippageQuote (small_pool (1 / 10)) =
       (case fst (search_loop (small_pool (1 / 10)) 0 1000000000000000 33000000000000000 None Infinity) of
          None \<Rightarrow> (Inl (NoQuoteFound (percent (targetSlippage (small_pool (1 / 10))))),
                    snd (search_loop (small_pool (1 / 10)) 0 1000000000000000 33000000000000000 None Infinity))
        | Some bestResult \<Rightarrow> (Inr bestResult,
                    snd (search_loop (small_pool (1 / 10)) 0 1000000000000000 33000000000000000 None Infinity)))
   \<and> (\<exists>e evs. snd (calculateSlippageQuote (small_pool (1 / 10))) = e # evs
         \<and> event_mid e = 17000000000000000)
   \<and> reserveSell (small_pool (5 / 100)) * 20 div 100 = 11000000000000000
   \<and> calculateSlippageQuote (small_pool (5 / 100)) =
       (case fst (search_loop (small_pool (5 / 100)) 0 1000000000000000 11000000000000000 None Infinity) of
          None \<Rightarrow> (Inl (NoQuoteFound (percent (targetSlippage (small_pool (5 / 100))))),
                    snd (search_loop (small_pool (5 / 100)) 0 1000000000000000 11000000000000000 None Infinity))
        | Some bestResult \<Rightarrow> (Inr bestResult,
                    snd (search_loop (small_pool (5 / 100)) 0 1000000000000000 11000000000000000 None Infinity)))
   \<and> (\<exists>e evs. snd (calculateSlippageQuote (small_pool (5 / 100))) = e # evs
         \<and> event_mid e = 6000000000000000)"
proof -
  have wide: "calculateSlippageQuote (small_pool (1 / 10)) =
       (case fst (search_loop (small_pool (1 / 10)) 0 1000000000000000 33000000000000000 None Infinity) of
          None \<Rightarrow> (Inl (NoQuoteFound (percent (targetSlippage (small_pool (1 / 10))))),
                    snd (search_loop (small_pool (1 / 10)) 0 1000000000000000 33000000000000000 None Infinity))
        | Some bestResult \<Rightarrow> (Inr bestResult,
                    snd (search_loop (small_pool (1 / 10)) 0 1000000000000000 33000000000000000 None Infinity)))
     \<and> (if (1000000000000000::int) \<le> 33000000000000000
        then \<exists>e evs. snd (calculateSlippageQuote (small_pool (1 / 10))) = e # evs
               \<and> event_mid e = (1000000000000000 + 33000000000000000) div 2
        else snd (calculateSlippageQuote (small_pool (1 / 10))) = [])"
    by (rule initial_search_bounds [where percentage = 60])
      (simp_all add: small_pool_fields double_01)
  have narrow: "calculateSlippageQuote (small_pool (5 / 100)) =
       (case fst (search_loop (small_pool (5 / 100)) 0 1000000000000000 11000000000000000 None Infinity) of
          None \<Rightarrow> (Inl (NoQuoteFound (percent (targetSlippage (small_pool (5 / 100))))),
                    snd (search_loop (small_pool (5 / 100)) 0 1000000000000000 11000000000000000 None Infinity))
        | Some bestResult \<Rightarrow> (Inr bestResult,
                    snd (search_loop (small_pool (5 / 100)) 0 1000000000000000 11000000000000000 None Infinity)))
     \<and> (if (1000000000000000::int) \<le> 11000000000000000
        then \<exists>e evs. snd (calculateSlippageQuote (small_pool (5 / 100))) = e # evs
               \<and> event_mid e = (1000000000000000 + 11000000000000000) div 2
        else snd (calculateSlippageQuote (small_pool (5 / 100))) = [])"
    by (rule initial_search_bounds [where percentage = 20])
      (simp_all add: small_pool_fields double_01 double_005_normal)
  from wide [THEN conjunct2]
  have w: "\<exists>e evs. snd (calculateSlippageQuote (small_pool (1 / 10))) = e # evs
         \<and> event_mid e = 17000000000000000"
    by simp
  from narrow [THEN conjunct2]
  have n: "\<exists>e evs. snd (calculateSlippageQuote (small_pool (5 / 100))) = e # evs
         \<and> event_mid e = 6000000000000000"
    by simp
  have f: "0 < reserveSell (small_pool (1 / 10)) \<and> reserveBuy (small_pool (1 / 10)) \<noteq> 0
   \<and> 3 \<le> sellTokenDecimals (small_pool (1 / 10)) \<and> sellTokenDecimals (small_pool (1 / 10)) \<le> 256
   \<and> (10::int) ^ sellTokenDecimals (small_pool (1 / 10)) div 1000 = 1000000000000000
   \<and> reserveSell (small_pool (1 / 10)) * 60 div 100 = 33000000000000000
   \<and> reserveSell (small_pool (5 / 100)) * 20 div 100 = 11000000000000000"
    by (simp add: small_pool_fields)
  from f wide [THEN conjunct1] w narrow [THEN conjunct1] n show ?thesis by blast
qed

subsection \<open>The quote is the closest candidate\<close>

lemma no_better_quiet:
  "no_better p bd evs \<Longrightarrow> \<not> is_candidate e \<Longrightarrow> no_better p bd (e # evs)"
  by (cases e) (auto simp: no_better_def)

lemma no_better_worse:
  "no_better p bd evs \<Longrightarrow> \<not> js_less (diffBP_of p bp) bd
     \<Longrightarrow> no_better p bd (Candidate m out bp # evs)"
  by (auto simp: no_better_def)

lemma closest_at_quiet:
  "closest_at p evs m out bp \<Longrightarrow> \<not> is_candidate e \<Longrightarrow> closest_at p (e # evs) m out bp"
  by (cases e) (auto simp: closest_at_def)

lemma closest_at_farther:
  "closest_at p evs m out bp \<Longrightarrow> js_le (diffBP_of p bp) (diffBP_of p bp0)
     \<Longrightarrow> closest_at p (Candidate m0 out0 bp0 # evs) m out bp"
  by (auto simp: closest_at_def)

lemma closest_at_head:
  "no_better p (diffBP_of p bp) evs \<Longrightarrow> probe_at p m = Impact out bp
     \<Longrightarrow> closest_at p (Candidate m out bp # evs) m out bp"
  by (auto simp: closest_at_def no_better_def js_less_iff)

lemma js_less_not_less_le: "js_less a bd \<Longrightarrow> \<not> js_less b bd \<Longrightarrow> js_le a b"
  by (cases a; cases b; cases bd) auto

lemma closest_seen_quiet:
  assumes "closest_seen p best bd r" and "\<not> is_candidate e"
  shows "closest_seen p best bd (logged e r)"
proof (cases "fst r")
  case None
  with assms show ?thesis by (auto simp: closest_seen_def logged_def intro: no_better_quiet)
next
  case (Some q)
  with assms(1) have "(best = Some q \<and> no_better p bd (snd r))
      \<or> (\<exists>m out bp. q = quote_of p m out \<and> js_less (diffBP_of p bp) bd
            \<and> closest_at p (snd r) m out bp)"
    by (simp add: closest_seen_def)
  then have "(best = Some q \<and> no_better p bd (e # snd r))
      \<or> (\<exists>m out bp. q = quote_of p m out \<and> js_less (diffBP_of p bp) bd
            \<and> closest_at p (e # snd r) m out bp)"
    using assms(2) by (blast intro: no_better_quiet closest_at_quiet)
  with Some show ?thesis by (simp add: closest_seen_def logged_def)
qed

lemma closest_seen_worse:
  assumes "closest_seen p best bd r" and "\<not> js_less (diffBP_of p bp) bd"
  shows "closest_seen p best bd (logged (Candidate m out bp) r)"
proof (cases "fst r")
  case None
  with assms show ?thesis by (auto simp: closest_seen_def logged_def intro: no_better_worse)
next
  case (Some q)
  with assms(1) have "(best = Some q \<and> no_better p bd (snd r))
      \<or> (\<exists>m out bp. q = quote_of p m out \<and> js_less (diffBP_of p bp) bd
            \<and> closest_at p (snd r) m out bp)"
    by (simp add: closest_seen_def)
  then have "(best = Some q \<and> no_better p bd (Candidate m out bp # snd r))
      \<or> (\<exists>m' out' bp'. q = quote_of p m' out' \<and> js_less (diffBP_of p bp') bd
            \<and> closest_at p (Candidate m out bp # snd r) m' out' bp')"
    using assms(2) by (blast intro: no_better_worse closest_at_farther js_less_not_less_le)
  with Some show ?thesis by (simp add: closest_seen_def logged_def)
qed

lemma closest_seen_better:
  assumes "closest_seen p (Some (quote_of p m out)) (diffBP_of p bp) r"
    and "js_less (diffBP_of p bp) bd" and "probe_at p m = Impact out bp"
  shows "closest_seen p best bd (logged (Candidate m out bp) r)"
proof (cases "fst r")
  case None
  with assms(1) show ?thesis by (simp add: closest_seen_def)
next
  case (Some q)
  with assms(1) have "(q = quote_of p m out \<and> no_better p (diffBP_of p bp) (snd r))
      \<or> (\<exists>m' out' bp'. q = quote_of p m' out'
            \<and> js_less (diffBP_of p bp') (diffBP_of p bp)
            \<and> closest_at p (snd r) m' out' bp')"
    by (auto simp: closest_seen_def)
  then have "\<exists>m' out' bp'. q = quote_of p m' out' \<and> js_less (diffBP_of p bp') bd
            \<and> closest_at p (Candidate m out bp # snd r) m' out' bp'"
  proof (elim disjE conjE exE)
    assume "q = quote_of p m out" and "no_better p (diffBP_of p bp) (snd r)"
    then show ?thesis
      using assms(2,3) by (blast intro: closest_at_head)
  next
    fix m' out' bp'
    assume a: "q = quote_of p m' out'"
      "js_less (diffBP_of p bp') (diffBP_of p bp)"
      "closest_at p (snd r) m' out' bp'"
    from a(2) have "js_le (diffBP_of p bp') (diffBP_of p bp)" by (rule js_less_imp_le)
    with a(3) have "closest_at p (Candidate m out bp # snd r) m' out' bp'"
      by (rule closest_at_farther)
    moreover have "js_less (diffBP_of p bp') bd"
      using a(2) assms(2) by (rule js_less_trans)
    ultimately show ?thesis using a(1) by blast
  qed
  with Some show ?thesis by (simp add: closest_seen_def logged_def)
qed

lemma search_loop_closest_seen:
  assumes "formats p" and "js_less toleranceBP bd"
  shows "closest_seen p best bd (search_loop p i low high best bd)"
  using assms
proof (induction p i low high best bd rule: search_loop.induct)
  case (1 p i low high best bd)
  note f = "1.prems"(1) and tol = "1.prems"(2)
  show ?case
  proof (cases "i < 15 \<and> low \<le> high")
    case False
    then have "search_loop p i low high best bd = (best, [])"
      by (rule search_loop_stops)
    then show ?thesis
      by (cases best) (auto simp: closest_seen_def no_better_def)
  next
    case True
    let ?mid = "tdiv (low + high) 2"
    show ?thesis
    proof (cases "iteration p ?mid best bd")
      case (Accepted q e)
      then have eq: "search_loop p i low high best bd = (Some q, [e])"
        using True by (subst search_loop.simps) auto
      from iteration_Accepted [OF f Accepted] obtain amountOut bp where
        e: "e = Candidate ?mid amountOut bp" "q = quote_of p ?mid amountOut"
          "probe_at p ?mid = Impact amountOut bp" "js_le (diffBP_of p bp) toleranceBP"
        by blast
      have "js_less (diffBP_of p bp) bd"
        using e(4) tol by (rule js_le_less_trans)
      moreover have "closest_at p [e] ?mid amountOut bp"
        using e by (simp add: closest_at_def)
      ultimately show ?thesis
        unfolding eq closest_seen_def using e(2) by auto
    next
      case (SetHigh e best' bd')
      then have eq: "search_loop p i low high best bd =
          logged e (search_loop p (i + 1) low (?mid - 1) best' bd')"
        using True by (subst search_loop.simps) auto
      note IH = "1.IH"(1) [OF True SetHigh f]
      from iteration_SetHigh [OF f SetHigh] show ?thesis
      proof (elim disjE conjE exE)
        assume "\<not> is_candidate e" and "best' = best" and "bd' = bd"
        then show ?thesis unfolding eq
          using IH tol by (auto intro: closest_seen_quiet)
      next
        fix amountOut bp
        assume a: "e = Candidate ?mid amountOut bp" "probe_at p ?mid = Impact amountOut bp"
          "\<not> js_le (diffBP_of p bp) toleranceBP"
          "if js_less (diffBP_of p bp) bd
           then best' = Some (quote_of p ?mid amountOut) \<and> bd' = diffBP_of p bp
           else best' = best \<and> bd' = bd"
        from a(3) have tol': "js_less toleranceBP (diffBP_of p bp)" by (simp add: js_less_iff)
        show ?thesis
        proof (cases "js_less (diffBP_of p bp) bd")
          case True
          with a have "closest_seen p best' bd' (search_loop p (i + 1) low (?mid - 1) best' bd')"
            using IH tol' by auto
          then show ?thesis unfolding eq using a True
            by (auto intro: closest_seen_better)
        next
          case False
          with a have "closest_seen p best bd (search_loop p (i + 1) low (?mid - 1) best' bd')"
            using IH tol by auto
          then show ?thesis unfolding eq a(1)
            using False by (rule closest_seen_worse)
        qed
      qed
    next
      case (SetLow e best' bd')
      then have eq: "search_loop p i low high best bd =
          logged e (search_loop p (i + 1) (?mid + 1) high best' bd')"
        using True by (subst search_loop.simps) auto
      note IH = "1.IH"(2) [OF True SetLow f]
      from iteration_SetLow [OF f SetLow] obtain amountOut bp where
        a: "e = Candidate ?mid amountOut bp" "probe_at p ?mid = Impact amountOut bp"
          "\<not> js_le (diffBP_of p bp) toleranceBP"
          "if js_less (diffBP_of p bp) bd
           then best' = Some (quote_of p ?mid amountOut) \<and> bd' = diffBP_of p bp
           else best' = best \<and> bd' = bd"
        by blast
      from a(3) have tol': "js_less toleranceBP (diffBP_of p bp)" by (simp add: js_less_iff)
      show ?thesis
      proof (cases "js_less (diffBP_of p bp) bd")
        case True
        with a have "closest_seen p best' bd' (search_loop p (i + 1) (?mid + 1) high best' bd')"
          using IH tol' by auto
        then show ?thesis unfolding eq using a True
          by (auto intro: closest_seen_better)
      next
        case False
        with a have "closest_seen p best bd (search_loop p (i + 1) (?mid + 1) high best' bd')"
          using IH tol by auto
        then show ?thesis unfolding eq a(1)
          using False by (rule closest_seen_worse)
      qed
    qed
  qed
qed

text \<open>
  C1, as the code has it. For a pool with strictly positive reserves and a sell token of
  3 to 256 decimals, any target and any oracle, \<open>calculateSlippageQuote\<close> either returns
  the quote of a candidate it probed that no candidate it probed was measured closer to
  the target than (so a candidate within 50 basis points whenever any probed candidate
  was, and one outside the band otherwise), or fails with \<open>NoQuoteFound\<close>; it then has
  measured no candidate at a finite distance, unless \<open>formatUnits\<close> refuses the decimals
  of the buy token. The target is \<open>targetSlippageBP\<close> and the distance \<open>diffBP_of\<close>, both
  in double arithmetic as the code computes them.
\<close>

theorem quote_is_closest_candidate:
  assumes "0 < reserveSell p" and "0 < reserveBuy p"
    and "3 \<le> sellTokenDecimals p" and "sellTokenDecimals p \<le> 256"
  shows "case calculateSlippageQuote p of
           (Inr q, evs) \<Rightarrow>
             (\<exists>mid amountOut bp. q = quote_of p mid amountOut \<and> closest_at p evs mid amountOut bp)
         | (Inl e, evs) \<Rightarrow>
             e = NoQuoteFound (percent (targetSlippage p))
             \<and> (buyTokenDecimals p \<le> 256 \<longrightarrow> no_better p Infinity evs)"
proof -
  define r where "r = search_loop p 0 (10 ^ (sellTokenDecimals p - 3))
    (tdiv (reserveSell p * maxTradePercent p) 100) None Infinity"
  have calc: "calculateSlippageQuote p =
      (case fst r of None \<Rightarrow> (Inl (NoQuoteFound (percent (targetSlippage p))), snd r)
       | Some bestResult \<Rightarrow> (Inr bestResult, snd r))"
    using assms r_def by (intro calculateSlippageQuote_search) simp_all
  show ?thesis
  proof (cases "buyTokenDecimals p \<le> 256")
    case True
    then have f: "formats p" using assms(4) by (simp add: formats_def)
    have seen: "closest_seen p None Infinity r"
      unfolding r_def using f by (rule search_loop_closest_seen) (simp add: toleranceBP_def)
    show ?thesis
    proof (cases "fst r")
      case None
      with seen calc show ?thesis by (simp add: closest_seen_def)
    next
      case (Some q)
      with seen calc show ?thesis by (auto simp: closest_seen_def)
    qed
  next
    case False
    then have "\<not> formats p" by (simp add: formats_def)
    then have "fst r = None" unfolding r_def by (rule unformatted_search)
    with calc False show ?thesis by simp
  qed
qed

theorem quote_is_closest_candidate_witness:
  "0 < reserveSell shallow_pool \<and> 0 < reserveBuy shallow_pool
   \<and> 3 \<le> sellTokenDecimals shallow_pool \<and> sellTokenDecimals shallow_pool \<le> 256
   \<and> (case calculateSlippageQuote shallow_pool of
         (Inr q, evs) \<Rightarrow>
           (\<exists>mid amountOut bp. q = quote_of shallow_pool mid amountOut
              \<and> closest_at shallow_pool evs mid amountOut bp)
       | (Inl e, evs) \<Rightarrow>
           e = NoQuoteFound (percent (targetSlippage shallow_pool))
           \<and> (buyTokenDecimals shallow_pool \<le> 256 \<longrightarrow> no_better shallow_pool Infinity evs))"
proof -
  have "0 < reserveSell shallow_pool" and "0 < reserveBuy shallow_pool"
    and "3 \<le> sellTokenDecimals shallow_pool" and "sellTokenDecimals shallow_pool \<le> 256"
    by (simp_all add: shallow_pool_def)
  then show ?thesis
    using quote_is_closest_candidate [of shallow_pool] by simp
qed

lemma shallow_pool_fields:
  "router shallow_pool = constant_product 5000000000000000 5000000000000000"
  "reserveSell shallow_pool = 5000000000000000"
  "reserveBuy shallow_pool = 5000000000000000"
  "targetSlippage shallow_pool = 1 / 100"
  "sellTokenDecimals shallow_pool = 18"
  "buyTokenDecimals shallow_pool = 18"
  by (simp_all add: shallow_pool_def)

text \<open>
  C1, as the claim states it, fails. The shallow pool has strictly positive reserves;
  its search for the 1% target (100 basis points) returns the quote that sells
  0.001 tokens, whose realized price impact is 1666 basis points.
\<close>

theorem quote_outside_tolerance:
  "0 < reserveSell shallow_pool \<and> 0 < reserveBuy shallow_pool
   \<and> targetSlippageBP shallow_pool = Finite 100
   \<and> fst (calculateSlippageQuote shallow_pool) =
       Inr \<lparr> sellAmount = Units 1000000000000000 18, buyAmount = Units 833333333333333 18 \<rparr>
   \<and> router shallow_pool 1000000000000000 (path shallow_pool)
       = Some [1000000000000000, 833333333333333]
   \<and> priceImpactBPNum (spotPrice shallow_pool) 833333333333333 1000000000000000 = Some 1666
   \<and> diffBP_of shallow_pool 1666 = Finite 1566
   \<and> \<not> js_le (diffBP_of shallow_pool 1666) toleranceBP"
proof -
  have T: "targetSlippageBP shallow_pool = Finite 100"
    by (rule targetSlippageBP_levels) (simp add: shallow_pool_fields)
  have M: "maxTradePercent shallow_pool = 20"
    by (rule maxTradePercent_levels) (simp add: shallow_pool_fields)
  show ?thesis
    by (simp add: calculateSlippageQuote_def shallow_pool_fields T M parseUnits_milli_def tdiv_def
      search_loop.simps iteration_def probe_at_def constant_product_def spotPrice_def
      PRECISION_BASE_def priceImpactBPNum_def bn_div_def toNumber_def diffBP_of_def
      toleranceBP_def quote_at_def formatUnits_def
      round_double_numeral round_double_neg_numeral)
qed

subsection \<open>Two targets, one pool\<close>


lemma raw_sell_quote_of [simp]: "raw (sellAmount (quote_of p m out)) = m"
  by (simp add: quote_of_def)




lemma sided_low: "sided T1 T2 low high m bp \<Longrightarrow> low \<le> low' \<Longrightarrow> sided T1 T2 low' high m bp"
  by (auto simp: sided_def)

lemma sided_high: "sided T1 T2 low high m bp \<Longrightarrow> high' \<le> high \<Longrightarrow> sided T1 T2 low high' m bp"
  by (auto simp: sided_def)






lemma best_of_Some [simp]: "best_of p (Some (m, out, bp)) = Some (quote_of p m out)"
  by (simp add: best_of_def)


subsection \<open>Where the arithmetic of the loop is exact\<close>


















subsection \<open>Targets between 0 and 1\<close>





subsection \<open>The constant-product oracle\<close>





subsection \<open>The order of the sell amounts\<close>








section \<open>The orchestrator: sanity checks and aggregation\<close>

lemma error_message_nonempty: "error_message txt e \<noteq> []"
  by (cases "(txt, e)" rule: error_message.cases) simp_all

lemma rejection_text_Inl:
  "rejection_text txt level (Inl e) = Some (txt (percent level) @ ''%: '' @ error_message txt e)"
  by (simp add: rejection_text_def error_message_nonempty)

lemma rejection_text_Inr: "rejection_text txt level (Inr v) = None"
  by (simp add: rejection_text_def)

lemma upt3: "[0..<3] = [0, 1, 2]"
  by (simp add: upt_rec)

lemma aggregateQuotes_three:
  "aggregateQuotes txt s b cid [r1, r5, r10] =
     (case (r1, r5, r10) of
        (Inr v1, Inr v5, Inr v10) \<Rightarrow>
          Inr \<lparr> resp_sellToken = s, resp_buyToken = b, resp_chainId = cid,
                quotes = \<lparr> quote1 = v1, quote5 = v5, quote10 = v10 \<rparr> \<rparr>
      | _ \<Rightarrow>
          Inl (QuotesFailed (''Failed to calculate slippage quotes. Errors: '' @
                 join '', '' (failed_levels txt slippageLevels [r1, r5, r10]))))"
  by (cases r1; cases r5; cases r10)
    (simp_all add: aggregateQuotes_def fulfilled_value_def rejection_text_Inl rejection_text_Inr
      upt3 slippageLevels_def Let_def)

lemma validate_two:
  "validateAndNormalizeAddresses g [a, b] = Inr xs \<Longrightarrow> \<exists>s t. xs = [s, t]"
  by (auto simp: validateAndNormalizeAddresses_def split: option.splits sum.splits)

lemma getLiquidityQuotes_fan_out:
  assumes "validateAndNormalizeAddresses (getAddress ev) [sellToken request, buyToken request]
             = Inr [s, b]"
    and "s \<noteq> b"
    and "getChainConfig (chainId request) = Inr config"
    and "getTokenReserves s b (provider_of ev (chainId request)) = Inr reserves"
    and "getTokenDecimals (provider_of ev (chainId request)) s = Inr sellDecimals"
    and "getTokenDecimals (provider_of ev (chainId request)) b = Inr buyDecimals"
  shows "getLiquidityQuotes ev request =
     (let r = search_at (provider_of ev (chainId request)) s b reserves sellDecimals buyDecimals
      in (aggregateQuotes (numText ev) s b (chainId request)
            [fst (r (1 / 100)), fst (r (5 / 100)), fst (r (1 / 10))],
          snd (r (1 / 100)) @ snd (r (5 / 100)) @ snd (r (1 / 10))))"
  using assms
  by (simp add: getLiquidityQuotes_def Let_def slippageLevels_def search_at_def)

lemma MIN_RESERVE_eq: "3 \<le> d \<Longrightarrow> d \<le> 256 \<Longrightarrow> MIN_RESERVE d = Some (10 ^ (d - 3))"
proof -
  assume d: "3 \<le> d" "d \<le> 256"
  have "(10::int) ^ d div 1000 = 10 ^ (d - 3)" using d(1) by (rule power_10_div_1000)
  then have "tdiv (10 ^ d) 1000 = 10 ^ (d - 3)" by (simp add: tdiv_nonneg)
  then show ?thesis using d by (simp add: MIN_RESERVE_def parseUnits_milli_def)
qed

lemma aggregate_not_shallow: "aggregateQuotes txt s b cid rs \<noteq> Inl ShallowPool"
  by (auto simp: aggregateQuotes_def Let_def split: option.splits)

lemma getTokenDecimals_not_shallow: "getTokenDecimals prov t \<noteq> Inl ShallowPool"
  by (simp add: getTokenDecimals_def Let_def)

lemma example_normalized:
  "validateAndNormalizeAddresses (getAddress (example_env r0 r1)) [WETH, DAI] = Inr [WETH, DAI]"
  "validateAndNormalizeAddresses (getAddress (example_env r0 r1)) [DAI, WETH] = Inr [DAI, WETH]"
  by (simp_all add: validateAndNormalizeAddresses_def toChecksumAddress_def example_env_def
      WETH_def DAI_def toLowerCase_def)

lemma not_shallow_after_reserves:
  assumes "validateAndNormalizeAddresses (getAddress ev) [sellToken request, buyToken request]
             = Inr [s, b]"
    and "s \<noteq> b"
    and "getChainConfig (chainId request) = Inr config"
    and "getTokenReserves s b (provider_of ev (chainId request)) = Inr reserves"
  shows "fst (getLiquidityQuotes ev request) \<noteq> Inl ShallowPool"
  using assms aggregate_not_shallow getTokenDecimals_not_shallow
  by (auto simp: getLiquidityQuotes_def Let_def split: sum.splits)

lemma example_reserves:
  "getTokenReserves WETH DAI (example_provider 20000000000000000000000 10000000000000000)
     = Inr \<lparr> res_reserveSell = 10000000000000000, res_reserveBuy = 20000000000000000000000,
             res_token0 = DAI, res_token1 = WETH \<rparr>"
  by (simp add: getTokenReserves_def example_provider_def DAI_WETH_PAIR_def AddressZero_def
      getTokenDecimals_def MIN_TOKEN_DECIMALS_def MAX_TOKEN_DECIMALS_def MIN_RESERVE_def
      parseUnits_milli_def tdiv_def toLowerCase_def WETH_def DAI_def Let_def)

lemma example_facts:
  "sellToken sell_WETH = WETH" "buyToken sell_WETH = DAI" "chainId sell_WETH = 1"
  "WETH \<noteq> DAI"
  "provider_of (example_env r0 r1) 1 = example_provider r0 r1"
  "factory_getPair (example_provider r0 r1) WETH DAI = DAI_WETH_PAIR"
  "DAI_WETH_PAIR \<noteq> AddressZero"
  "pair_getReserves (example_provider r0 r1) DAI_WETH_PAIR = (r0, r1)"
  "getTokenDecimals (example_provider r0 r1) t = Inr 18"
  by (simp_all add: sell_WETH_def WETH_def DAI_def example_env_def example_provider_def
      DAI_WETH_PAIR_def AddressZero_def getTokenDecimals_def MIN_TOKEN_DECIMALS_def
      MAX_TOKEN_DECIMALS_def)

lemma chain_1: "\<exists>config. getChainConfig 1 = Inr config"
  by (simp add: getChainConfig_def CHAIN_CONFIGS_def)

lemma example_router:
  "router_getAmountsOut (example_provider r0 r1) x [WETH, DAI] = constant_product r1 r0 x [WETH, DAI]"
  by (simp add: example_provider_def WETH_def DAI_def)

lemma sell_WETH_searches:
  "fst (search_at (example_provider 20000000000000000000000 10000000000000000) WETH DAI
      \<lparr> res_reserveSell = 10000000000000000, res_reserveBuy = 20000000000000000000000,
        res_token0 = DAI, res_token1 = WETH \<rparr> 18 18 (1 / 100))
     = Inr \<lparr> sellAmount = Units 1000976562499999 18, buyAmount = Units 1819795827785173669194 18 \<rparr>"
  "fst (search_at (example_provider 20000000000000000000000 10000000000000000) WETH DAI
      \<lparr> res_reserveSell = 10000000000000000, res_reserveBuy = 20000000000000000000000,
        res_token0 = DAI, res_token1 = WETH \<rparr> 18 18 (5 / 100))
     = Inr \<lparr> sellAmount = Units 1000976562499999 18, buyAmount = Units 1819795827785173669194 18 \<rparr>"
  "fst (search_at (example_provider 20000000000000000000000 10000000000000000) WETH DAI
      \<lparr> res_reserveSell = 10000000000000000, res_reserveBuy = 20000000000000000000000,
        res_token0 = DAI, res_token1 = WETH \<rparr> 18 18 (1 / 10))
     = Inr \<lparr> sellAmount = Units 1156249999999999 18, buyAmount = Units 2072829131652659457508 18 \<rparr>"
  by (simp_all add: search_at_def example_router calculateSlippageQuote_def
      targetSlippageBP_levels maxTradePercent_levels parseUnits_milli_def tdiv_def
      search_loop.simps iteration_def probe_at_def constant_product_def spotPrice_def
      PRECISION_BASE_def priceImpactBPNum_def bn_div_def toNumber_def
      toleranceBP_def quote_at_def formatUnits_def
      round_double_numeral round_double_neg_numeral)

text \<open>
  C4. The depth check of lines 219 to 224 takes 0.1% of \<open>reserve0\<close> and the minimum
  reserve of token0, before line 226 finds out which of the two tokens is sold: it is
  not the check of the sell side that the claim describes. WETH is token1 of the example
  pool, which holds 20000 DAI and 0.01 WETH. For the request to sell WETH, 0.1% of the
  sell-side reserve does not exceed ten times the minimum reserve, and yet the request
  is not rejected: the three searches are launched and the response carries their
  quotes, the 1% and the 5% quote at a price impact of 909 basis points.
\<close>

theorem shallow_sell_side_not_rejected:
  "sellToken sell_WETH = WETH
   \<and> getTokenReserves WETH DAI (provider_of (example_env 20000000000000000000000 10000000000000000) 1)
       = Inr \<lparr> res_reserveSell = 10000000000000000, res_reserveBuy = 20000000000000000000000,
               res_token0 = DAI, res_token1 = WETH \<rparr>
   \<and> MIN_RESERVE 18 = Some 1000000000000000
   \<and> \<not> (10000000000000000::int) div 1000 > 10 * 1000000000000000
   \<and> fst (getLiquidityQuotes (example_env 20000000000000000000000 10000000000000000) sell_WETH)
       = Inr \<lparr> resp_sellToken = WETH, resp_buyToken = DAI, resp_chainId = 1,
               quotes = \<lparr> quote1 = \<lparr> sellAmount = Units 1000976562499999 18,
                                     buyAmount = Units 1819795827785173669194 18 \<rparr>,
                          quote5 = \<lparr> sellAmount = Units 1000976562499999 18,
                                     buyAmount = Units 1819795827785173669194 18 \<rparr>,
                          quote10 = \<lparr> sellAmount = Units 1156249999999999 18,
                                      buyAmount = Units 2072829131652659457508 18 \<rparr> \<rparr> \<rparr>
   \<and> priceImpactBPNum 2000000000000000000000000 1819795827785173669194 1000976562499999 = Some 909"
proof -
  let ?ev = "example_env 20000000000000000000000 10000000000000000"
  obtain config where c: "getChainConfig (chainId sell_WETH) = Inr config"
    using chain_1 by (auto simp: example_facts)
  have n: "validateAndNormalizeAddresses (getAddress ?ev)
       [sellToken sell_WETH, buyToken sell_WETH] = Inr [WETH, DAI]"
    by (simp add: example_facts example_normalized)
  have r: "getTokenReserves WETH DAI (provider_of ?ev 1)
       = Inr \<lparr> res_reserveSell = 10000000000000000, res_reserveBuy = 20000000000000000000000,
               res_token0 = DAI, res_token1 = WETH \<rparr>"
    by (simp add: example_facts example_reserves)
  have d: "getTokenDecimals (provider_of ?ev (chainId sell_WETH)) t = Inr 18" for t
    by (simp add: example_facts)
  have "fst (getLiquidityQuotes ?ev sell_WETH)
       = Inr \<lparr> resp_sellToken = WETH, resp_buyToken = DAI, resp_chainId = 1,
               quotes = \<lparr> quote1 = \<lparr> sellAmount = Units 1000976562499999 18,
                                     buyAmount = Units 1819795827785173669194 18 \<rparr>,
                          quote5 = \<lparr> sellAmount = Units 1000976562499999 18,
                                     buyAmount = Units 1819795827785173669194 18 \<rparr>,
                          quote10 = \<lparr> sellAmount = Units 1156249999999999 18,
                                      buyAmount = Units 2072829131652659457508 18 \<rparr> \<rparr> \<rparr>"
    unfolding getLiquidityQuotes_fan_out [OF n example_facts(4) c r [folded example_facts(3)] d d]
      Let_def fst_conv aggregateQuotes_three
    by (simp only: example_facts sell_WETH_searches sum.case prod.case)
  moreover have "MIN_RESERVE 18 = Some 1000000000000000"
    by (simp add: MIN_RESERVE_eq)
  moreover have "priceImpactBPNum 2000000000000000000000000 1819795827785173669194 1000976562499999
      = Some 909"
    by (simp add: priceImpactBPNum_def bn_div_def tdiv_def PRECISION_BASE_def toNumber_def)
  ultimately show ?thesis using r by (simp add: example_facts)
qed




section \<open>The cache: what its operations do\<close>

lemma maxSize_set [simp]: "maxSize (SimpleCache_set now rn key d c) = maxSize c"
  by (simp add: SimpleCache_set_def SimpleCache_makeRoom_def Let_def)

lemma ttl_set [simp]: "ttl (SimpleCache_set now rn key d c) = ttl c"
  by (simp add: SimpleCache_set_def SimpleCache_makeRoom_def Let_def)

lemma maxSize_get [simp]: "maxSize (snd (SimpleCache_get now key c)) = maxSize c"
  by (simp add: SimpleCache_get_def split: option.splits)

lemma ttl_get [simp]: "ttl (snd (SimpleCache_get now key c)) = ttl c"
  by (simp add: SimpleCache_get_def split: option.splits)

lemma maxSize_call [simp]: "maxSize (call c x) = maxSize c"
  by (cases x) (simp_all add: SimpleCache_clear_def)

lemma ttl_call [simp]: "ttl (call c x) = ttl c"
  by (cases x) (simp_all add: SimpleCache_clear_def)

lemma calls_snoc: "calls c (cs @ [x]) = call (calls c cs) x"
  by (simp add: calls_def)

lemma maxSize_calls [simp]: "maxSize (calls c cs) = maxSize c"
  by (induction cs rule: rev_induct) (simp_all add: calls_def)

lemma ttl_calls [simp]: "ttl (calls c cs) = ttl c"
  by (induction cs rule: rev_induct) (simp_all add: calls_def)

lemma map_of_None_iff: "map_of al k = None \<longleftrightarrow> k \<notin> fst ` set al"
  by (simp add: map_of_eq_None_iff)

lemma length_update:
  "length (AList.update k v al) = (if k \<in> fst ` set al then length al else Suc (length al))"
  by (induction al) auto

lemma fold_delete_filter:
  "fold AList.delete ks al = filter (\<lambda>kv. fst kv \<notin> set ks) al"
proof (induction ks arbitrary: al)
  case Nil
  then show ?case by simp
next
  case (Cons k ks)
  have "AList.delete k al = filter (\<lambda>kv. fst kv \<noteq> k) al"
    by (induction al) (auto simp: AList.delete_eq)
  then show ?case using Cons by (auto intro: filter_cong)
qed

lemma length_fold_delete_le: "length (fold AList.delete ks al) \<le> length al"
  by (simp add: fold_delete_filter)

lemma length_fold_delete_less:
  assumes "k \<in> set ks" and "k \<in> fst ` set al"
  shows "length (fold AList.delete ks al) < length al"
proof -
  from assms obtain kv where "kv \<in> set al" "fst kv \<in> set ks" by auto
  then show ?thesis
    unfolding fold_delete_filter by (intro length_filter_less[of kv]) auto
qed

text \<open>A capacity that is an integer.\<close>

lemma at_capacity_int:
  "maxSize c = of_int k \<Longrightarrow> (maxSize c \<le> of_nat n) = (k \<le> int n)"
proof -
  assume "maxSize c = of_int k"
  then have "(maxSize c \<le> of_nat n) = ((of_int k :: rat) \<le> of_int (int n))" by simp
  then show ?thesis by (simp only: of_int_le_iff)
qed

lemma toRemove_int: "maxSize c = of_int k \<Longrightarrow> \<lfloor>maxSize c / 4\<rfloor> = k div 4"
  using floor_divide_of_int_eq [of k 4, where ?'a = rat] by simp

lemma makeRoom_length:
  assumes "maxSize c = of_int k" and "int (length (cache c)) \<le> max 1 k"
  shows "int (length (cache (SimpleCache_makeRoom now c))) < max 1 k
         \<or> cache (SimpleCache_makeRoom now c) = []"
proof -
  let ?un = "filter (\<lambda>kv. \<not> now - timestamp (snd kv) > ttl c) (cache c)"
  have le: "length ?un \<le> length (cache c)" by simp
  show ?thesis
  proof (cases "maxSize c \<le> of_nat (length ?un)")
    case False
    then have "\<not> k \<le> int (length ?un)" by (simp add: at_capacity_int [OF assms(1)])
    with False show ?thesis by (simp add: SimpleCache_makeRoom_def Let_def)
  next
    case True
    let ?entries = "sort_key (\<lambda>kv. lastAccessed (snd kv)) ?un"
    let ?victims = "map fst (take (nat (max 1 \<lfloor>maxSize c * (1 / 4)\<rfloor>)) ?entries)"
    have res: "cache (SimpleCache_makeRoom now c) = fold AList.delete ?victims ?un"
      using True by (simp add: SimpleCache_makeRoom_def Let_def)
    show ?thesis
    proof (cases "?un = []")
      case True
      then show ?thesis unfolding res by (simp add: fold_delete_filter)
    next
      case False
      then have "?entries \<noteq> []" by (metis length_0_conv length_sort)
      then obtain e es where es: "?entries = e # es" by (cases ?entries) auto
      have "nat (max 1 \<lfloor>maxSize c * (1 / 4)\<rfloor>)
          = Suc (nat (max 1 \<lfloor>maxSize c * (1 / 4)\<rfloor>) - 1)" by simp
      then obtain n where n: "nat (max 1 \<lfloor>maxSize c * (1 / 4)\<rfloor>) = Suc n" by blast
      have "fst e \<in> set ?victims" unfolding es n by simp
      moreover have "e \<in> set ?un" using es by (metis list.set_intros(1) set_sort)
      then have "fst e \<in> fst ` set ?un" by blast
      ultimately have "length (fold AList.delete ?victims ?un) < length ?un"
        by (rule length_fold_delete_less)
      then show ?thesis unfolding res using le assms(2) by linarith
    qed
  qed
qed

lemma set_length:
  assumes "maxSize c = of_int k" and "int (length (cache c)) \<le> max 1 k"
  shows "int (length (cache (SimpleCache_set now rn key d c))) \<le> max 1 k"
proof (cases "map_of (cache c) key")
  case (Some e)
  then have "key \<in> fst ` set (cache c)" by (metis map_of_None_iff option.distinct(1))
  then show ?thesis using Some assms(2)
    by (simp add: SimpleCache_set_def length_update)
next
  case None
  then have nk: "key \<notin> fst ` set (cache c)" by (simp add: map_of_None_iff)
  show ?thesis
  proof (cases "maxSize c \<le> of_nat (length (cache c))")
    case False
    then have "\<not> k \<le> int (length (cache c))" by (simp add: at_capacity_int [OF assms(1)])
    with False show ?thesis using None nk
      by (simp add: SimpleCache_set_def length_update)
  next
    case True
    have "int (length (cache (SimpleCache_set now rn key d c)))
        \<le> int (length (cache (SimpleCache_makeRoom rn c))) + 1"
      using None True by (simp add: SimpleCache_set_def Let_def length_update)
    then show ?thesis using makeRoom_length[OF assms, of rn] by auto
  qed
qed

lemma get_length:
  "length (cache (snd (SimpleCache_get now key c))) \<le> length (cache c)"
proof (cases "map_of (cache c) key")
  case None
  then show ?thesis by (simp add: SimpleCache_get_def)
next
  case (Some e)
  then have "key \<in> fst ` set (cache c)" by (metis map_of_None_iff option.distinct(1))
  then show ?thesis using Some
    by (simp add: SimpleCache_get_def length_update length_delete_le)
qed

lemma call_length:
  assumes "maxSize c = of_int k" and "int (length (cache c)) \<le> max 1 k"
  shows "int (length (cache (call c x))) \<le> max 1 k"
proof (cases x)
  case (Set now rn key d)
  then show ?thesis using set_length[OF assms] by simp
next
  case (Get now key)
  then show ?thesis using get_length[of now key c] assms(2) by simp
next
  case Clear
  then show ?thesis by (simp add: SimpleCache_clear_def)
qed

lemma calls_length:
  "int (length (cache (calls (SimpleCache_new (of_int k) t) cs))) \<le> max 1 k"
proof (induction cs rule: rev_induct)
  case Nil
  then show ?case by (simp add: calls_def SimpleCache_new_def)
next
  case (snoc x cs)
  have "maxSize (calls (SimpleCache_new (of_int k) t) cs) = of_int k"
    by (simp add: SimpleCache_new_def)
  from call_length [OF this snoc] show ?case by (simp add: calls_snoc)
qed

lemma update_absent:
  "k \<notin> fst ` set al \<Longrightarrow> AList.update k v al = al @ [(k, v)]"
  by (induction al) auto

lemma update_present:
  "distinct (map fst al) \<Longrightarrow> k \<in> fst ` set al
     \<Longrightarrow> AList.update k v al = map (\<lambda>kv. if fst kv = k then (k, v) else kv) al"
proof (induction al)
  case Nil
  then show ?case by simp
next
  case (Cons a al)
  show ?case
  proof (cases "fst a = k")
    case True
    then have "k \<notin> fst ` set al" using Cons.prems(1) by auto
    then have "map (\<lambda>kv. if fst kv = k then (k, v) else kv) al = al"
      by (induction al) auto
    with True show ?thesis by (cases a) simp
  next
    case False
    with Cons show ?thesis by (cases a) auto
  qed
qed

lemma distinct_fold_delete:
  "distinct (map fst al) \<Longrightarrow> distinct (map fst (fold AList.delete ks al))"
  by (simp add: fold_delete_filter distinct_map_filter)

lemma distinct_makeRoom:
  "distinct (map fst (cache c)) \<Longrightarrow> distinct (map fst (cache (SimpleCache_makeRoom now c)))"
  by (simp add: SimpleCache_makeRoom_def Let_def distinct_fold_delete distinct_map_filter)

lemma distinct_set:
  "distinct (map fst (cache c)) \<Longrightarrow> distinct (map fst (cache (SimpleCache_set now rn key d c)))"
  by (simp add: SimpleCache_set_def Let_def distinct_update distinct_makeRoom)

lemma distinct_get:
  "distinct (map fst (cache c)) \<Longrightarrow> distinct (map fst (cache (snd (SimpleCache_get now key c))))"
  by (simp add: SimpleCache_get_def distinct_update distinct_delete split: option.splits)

lemma distinct_call:
  "distinct (map fst (cache c)) \<Longrightarrow> distinct (map fst (cache (call c x)))"
  by (cases x) (simp_all add: distinct_set distinct_get SimpleCache_clear_def)

lemma distinct_calls:
  "distinct (map fst (cache (calls (SimpleCache_new cap t) cs)))"
proof (induction cs rule: rev_induct)
  case Nil
  then show ?case by (simp add: calls_def SimpleCache_new_def)
next
  case (snoc x cs)
  then show ?case by (simp add: calls_snoc distinct_call)
qed

lemma keys_makeRoom:
  "fst ` set (cache (SimpleCache_makeRoom now c)) \<subseteq> fst ` set (cache c)"
  by (auto simp: SimpleCache_makeRoom_def Let_def fold_delete_filter)

lemma sorted_take_drop:
  assumes "sorted (map f xs)" and "a \<in> set (take n xs)" and "b \<in> set (drop n xs)"
  shows "f a \<le> f b"
proof -
  have "sorted (map f (take n xs) @ map f (drop n xs))"
    using assms(1) by (metis append_take_drop_id map_append)
  then show ?thesis using assms(2,3) by (auto simp: sorted_append)
qed

lemma evicts_least_recent_take:
  assumes "distinct (map fst xs)"
    and "n = max 1 (length xs div 4)"
  shows "evicts_least_recent xs (take n (sort_key (\<lambda>kv. lastAccessed (snd kv)) xs))"
proof -
  let ?s = "sort_key (\<lambda>kv. lastAccessed (snd kv)) xs"
  have dxs: "distinct xs" using assms(1) by (simp add: distinct_map)
  then have ds: "distinct ?s" by simp
  have sub: "set (take n ?s) \<subseteq> set xs"
    using set_take_subset [of n ?s] by simp
  have len: "length (take n ?s) = min (length xs) (max 1 (length xs div 4))"
    using assms(2) by simp
  have ord: "lastAccessed (snd a) \<le> lastAccessed (snd b)"
    if "a \<in> set (take n ?s)" and "b \<in> set xs - set (take n ?s)" for a b
  proof -
    have "set ?s = set (take n ?s) \<union> set (drop n ?s)"
      by (metis append_take_drop_id set_append)
    with that(2) have "b \<in> set (drop n ?s)" by auto
    moreover have "sorted (map (\<lambda>kv. lastAccessed (snd kv)) ?s)" by simp
    ultimately show ?thesis using that(1) sorted_take_drop by fast
  qed
  show ?thesis
    unfolding evicts_least_recent_def
    using sub ds len ord by (auto intro: distinct_take)
qed

lemma filter_keys_entries:
  assumes "distinct (map fst xs)" and "set ev \<subseteq> set xs"
  shows "filter (\<lambda>kv. fst kv \<notin> set (map fst ev)) xs = filter (\<lambda>kv. kv \<notin> set ev) xs"
proof (rule filter_cong [OF refl])
  fix kv assume kv: "kv \<in> set xs"
  have "inj_on fst (set xs)" using assms(1) by (simp add: distinct_map)
  then have "fst kv \<in> fst ` set ev \<longleftrightarrow> kv \<in> set ev"
    using kv assms(2) by (auto dest: inj_onD)
  then show "(fst kv \<notin> set (map fst ev)) = (kv \<notin> set ev)" by simp
qed

lemma makeRoom_cases:
  assumes d: "distinct (map fst (cache c))"
    and k: "maxSize c = of_int k"
    and l: "int (length (cache c)) \<le> max 1 k"
  shows "let unexpired = filter (\<lambda>kv. \<not> now - timestamp (snd kv) > ttl c) (cache c) in
         if int (length unexpired) < k
         then cache (SimpleCache_makeRoom now c) = unexpired
         else \<exists>evicted. evicts_least_recent unexpired evicted
                \<and> cache (SimpleCache_makeRoom now c) = filter (\<lambda>kv. kv \<notin> set evicted) unexpired"
proof -
  define un where "un = filter (\<lambda>kv. \<not> now - timestamp (snd kv) > ttl c) (cache c)"
  have dun: "distinct (map fst un)" unfolding un_def using d by (simp add: distinct_map_filter)
  have lun: "length un \<le> length (cache c)" unfolding un_def by simp
  show ?thesis
  proof (cases "int (length un) < k")
    case True
    then have "\<not> maxSize c \<le> of_nat (length un)" by (simp add: at_capacity_int [OF k])
    then show ?thesis using True
      by (simp add: SimpleCache_makeRoom_def Let_def un_def)
  next
    case False
    then have full: "maxSize c \<le> of_nat (length un)" by (simp add: at_capacity_int [OF k])
    let ?s = "sort_key (\<lambda>kv. lastAccessed (snd kv)) un"
    define n where "n = nat (max 1 (k div 4))"
    define m where "m = max 1 (length un div 4)"
    have res: "cache (SimpleCache_makeRoom now c) = fold AList.delete (map fst (take n ?s)) un"
      using full by (simp add: SimpleCache_makeRoom_def Let_def un_def n_def toRemove_int [OF k])
    have tk: "take n ?s = take m ?s"
    proof (cases "1 \<le> k")
      case True
      with False lun l have "int (length un) = k" by linarith
      then have "k div 4 = int (length un div 4)" by (simp add: zdiv_int)
      then have "n = m" unfolding n_def m_def by simp
      then show ?thesis by simp
    next
      case F: False
      then have "k div 4 \<le> 0" by simp
      then have n1: "n = 1" unfolding n_def by simp
      from F l lun have "length un \<le> 1" by simp
      then have "m = 1" unfolding m_def by simp
      with n1 show ?thesis by simp
    qed
    have ev: "evicts_least_recent un (take m ?s)"
      using dun m_def by (rule evicts_least_recent_take)
    then have sub: "set (take m ?s) \<subseteq> set un" by (simp add: evicts_least_recent_def)
    have "cache (SimpleCache_makeRoom now c) = filter (\<lambda>kv. kv \<notin> set (take m ?s)) un"
      unfolding res tk fold_delete_filter using dun sub by (rule filter_keys_entries)
    with ev False show ?thesis unfolding un_def [symmetric] Let_def by auto
  qed
qed

text \<open>
  C5, as the code has it. For a cache built with a capacity that is an integer and
  reached from the new cache by any calls, \<open>set(key, value)\<close> does one of three things.
  If the key exists, its entry is overwritten where it stands, with both timestamps
  reset, and every other entry stays: nothing is evicted. If the key is new and the
  store holds fewer than \<open>capacity\<close> entries, the entry is appended. If the key is new
  and the store holds at least \<open>capacity\<close> entries, the entries older than \<open>timeToLive\<close>
  are purged first; if fewer than \<open>capacity\<close> entries remain the new entry is appended
  to them, and otherwise a quarter of them (at least one), none accessed later than an
  entry that stays, is evicted before the new entry is appended.
\<close>

theorem set_overwrites_or_makes_room:
  assumes "c = calls (SimpleCache_new (of_int capacity) timeToLive) cs"
  shows "(map_of (cache c) key \<noteq> None \<longrightarrow>
            cache (SimpleCache_set now roomNow key d c) =
              map (\<lambda>kv. if fst kv = key then (key, fresh_entry d now) else kv) (cache c))
       \<and> (map_of (cache c) key = None \<and> int (length (cache c)) < capacity \<longrightarrow>
            cache (SimpleCache_set now roomNow key d c) = cache c @ [(key, fresh_entry d now)])
       \<and> (map_of (cache c) key = None \<and> capacity \<le> int (length (cache c)) \<longrightarrow>
            (let unexpired = filter (\<lambda>kv. \<not> roomNow - timestamp (snd kv) > timeToLive) (cache c) in
             if int (length unexpired) < capacity
             then cache (SimpleCache_set now roomNow key d c) = unexpired @ [(key, fresh_entry d now)]
             else \<exists>evicted. evicts_least_recent unexpired evicted
                    \<and> cache (SimpleCache_set now roomNow key d c) =
                        filter (\<lambda>kv. kv \<notin> set evicted) unexpired @ [(key, fresh_entry d now)]))"
proof -
  have cap: "maxSize c = of_int capacity" and t: "ttl c = timeToLive"
    unfolding assms by (simp_all add: SimpleCache_new_def)
  note full = at_capacity_int [OF cap, of "length (cache c)"]
  have d: "distinct (map fst (cache c))"
    unfolding assms by (rule distinct_calls)
  have l: "int (length (cache c)) \<le> max 1 capacity"
    unfolding assms by (rule calls_length)
  have one: "cache (SimpleCache_set now roomNow key d c) =
      map (\<lambda>kv. if fst kv = key then (key, fresh_entry d now) else kv) (cache c)"
    if "map_of (cache c) key \<noteq> None"
  proof -
    from that have "key \<in> fst ` set (cache c)" by (simp add: map_of_None_iff)
    with d have "AList.update key (fresh_entry d now) (cache c) =
        map (\<lambda>kv. if fst kv = key then (key, fresh_entry d now) else kv) (cache c)"
      by (rule update_present)
    with that show ?thesis by (simp add: SimpleCache_set_def fresh_entry_def)
  qed
  have two: "cache (SimpleCache_set now roomNow key d c) = cache c @ [(key, fresh_entry d now)]"
    if "map_of (cache c) key = None" and "int (length (cache c)) < capacity"
  proof -
    from that(1) have "key \<notin> fst ` set (cache c)" by (simp add: map_of_None_iff)
    then have "AList.update key (fresh_entry d now) (cache c) = cache c @ [(key, fresh_entry d now)]"
      by (rule update_absent)
    moreover have "\<not> maxSize c \<le> of_nat (length (cache c))" using that(2) by (simp add: full)
    ultimately show ?thesis using that(1) by (simp add: SimpleCache_set_def fresh_entry_def)
  qed
  have three: "let unexpired = filter (\<lambda>kv. \<not> roomNow - timestamp (snd kv) > timeToLive) (cache c) in
             if int (length unexpired) < capacity
             then cache (SimpleCache_set now roomNow key d c) = unexpired @ [(key, fresh_entry d now)]
             else \<exists>evicted. evicts_least_recent unexpired evicted
                    \<and> cache (SimpleCache_set now roomNow key d c) =
                        filter (\<lambda>kv. kv \<notin> set evicted) unexpired @ [(key, fresh_entry d now)]"
    if "map_of (cache c) key = None" and "capacity \<le> int (length (cache c))"
  proof -
    from that(1) have "key \<notin> fst ` set (cache c)" by (simp add: map_of_None_iff)
    then have "key \<notin> fst ` set (cache (SimpleCache_makeRoom roomNow c))"
      using keys_makeRoom [of roomNow c] by blast
    then have "AList.update key (fresh_entry d now) (cache (SimpleCache_makeRoom roomNow c)) =
        cache (SimpleCache_makeRoom roomNow c) @ [(key, fresh_entry d now)]"
      by (rule update_absent)
    moreover have "maxSize c \<le> of_nat (length (cache c))" using that(2) by (simp add: full)
    ultimately have "cache (SimpleCache_set now roomNow key d c) =
        cache (SimpleCache_makeRoom roomNow c) @ [(key, fresh_entry d now)]"
      using that(1) by (simp add: SimpleCache_set_def fresh_entry_def Let_def)
    then show ?thesis
      using makeRoom_cases [OF d cap l, of roomNow] unfolding t Let_def
      by (auto split: if_splits)
  qed
  from one two three show ?thesis by blast
qed

theorem set_overwrites_or_makes_room_witness:
  "map_of (cache (calls (SimpleCache_new (of_int 2) 1000) full_cache_calls)) ''key1'' \<noteq> None
   \<and> cache (SimpleCache_set 7 7 ''key1'' ''value3'' (calls (SimpleCache_new (of_int 2) 1000) full_cache_calls)) =
       [(''key1'', fresh_entry ''value3'' 7), (''key2'', fresh_entry ''value2'' 5)]
   \<and> map_of (cache (calls (SimpleCache_new (of_int 3) 1000) full_cache_calls)) ''key3'' = None
   \<and> int (length (cache (calls (SimpleCache_new (of_int 3) 1000) full_cache_calls))) < 3
   \<and> cache (SimpleCache_set 7 7 ''key3'' ''value3'' (calls (SimpleCache_new (of_int 3) 1000) full_cache_calls)) =
       [(''key1'', fresh_entry ''value1'' 0), (''key2'', fresh_entry ''value2'' 5),
        (''key3'', fresh_entry ''value3'' 7)]
   \<and> map_of (cache (calls (SimpleCache_new (of_int 2) 1000) full_cache_calls)) ''key3'' = None
   \<and> 2 \<le> int (length (cache (calls (SimpleCache_new (of_int 2) 1000) full_cache_calls)))
   \<and> (\<exists>evicted. evicts_least_recent
          (filter (\<lambda>kv. \<not> 7 - timestamp (snd kv) > 1000)
             (cache (calls (SimpleCache_new (of_int 2) 1000) full_cache_calls))) evicted
        \<and> cache (SimpleCache_set 7 7 ''key3'' ''value3'' (calls (SimpleCache_new (of_int 2) 1000) full_cache_calls)) =
            filter (\<lambda>kv. kv \<notin> set evicted)
              (filter (\<lambda>kv. \<not> 7 - timestamp (snd kv) > 1000)
                 (cache (calls (SimpleCache_new (of_int 2) 1000) full_cache_calls)))
            @ [(''key3'', fresh_entry ''value3'' 7)])"
proof -
  have c2: "cache (calls (SimpleCache_new (of_int 2) 1000) full_cache_calls) =
      [(''key1'', fresh_entry ''value1'' 0), (''key2'', fresh_entry ''value2'' 5)]"
    by (simp add: calls_def SimpleCache_new_def full_cache_calls_def SimpleCache_set_def
        fresh_entry_def)
  have c3: "cache (calls (SimpleCache_new (of_int 3) 1000) full_cache_calls) =
      [(''key1'', fresh_entry ''value1'' 0), (''key2'', fresh_entry ''value2'' 5)]"
    by (simp add: calls_def SimpleCache_new_def full_cache_calls_def SimpleCache_set_def
        fresh_entry_def)
  note w2 = set_overwrites_or_makes_room [OF refl, of 2 1000 full_cache_calls]
  note w3 = set_overwrites_or_makes_room [OF refl, of 3 1000 full_cache_calls]
  show ?thesis
    using w2 [of "''key1''" 7 7 "''value3''"] w3 [of "''key3''" 7 7 "''value3''"]
      w2 [of "''key3''" 7 7 "''value3''"]
    unfolding c2 c3 by (simp add: fresh_entry_def)
qed

text \<open>
  C5, as the claim states it, fails for a capacity that is not an integer. A cache of
  capacity 7.5 takes an eighth entry, since 7 is less than 7.5. With eight entries, none
  of them expired, \<open>set\<close> of a ninth key evicts \<open>max(1, floor(7.5 * 0.25)) = 1\<close> entry: the
  store holds seven of the eight and the new one, where a quarter of eight is two.
\<close>

theorem set_evicts_less_than_a_quarter:
  "length (cache (calls (SimpleCache_new (15 / 2) 1000) eight_calls)) = 8
   \<and> map_of (cache (calls (SimpleCache_new (15 / 2) 1000) eight_calls)) ''key9'' = None
   \<and> (15 / 2 :: rat) \<le> of_nat (length (cache (calls (SimpleCache_new (15 / 2) 1000) eight_calls)))
   \<and> filter (\<lambda>kv. \<not> 9 - timestamp (snd kv) > 1000)
        (cache (calls (SimpleCache_new (15 / 2) 1000) eight_calls))
       = cache (calls (SimpleCache_new (15 / 2) 1000) eight_calls)
   \<and> map fst (cache (SimpleCache_set 9 9 ''key9'' ''value9''
        (calls (SimpleCache_new (15 / 2) 1000) eight_calls)))
       = [''key2'', ''key3'', ''key4'', ''key5'', ''key6'', ''key7'', ''key8'', ''key9'']
   \<and> max 1 (length (cache (calls (SimpleCache_new (15 / 2) 1000) eight_calls)) div 4) = 2"
  by (simp add: calls_def SimpleCache_new_def eight_calls_def SimpleCache_set_def
      SimpleCache_makeRoom_def Let_def floor_rat_numeral)

lemma keys_set_append: "keys_set (cs @ ds) = keys_set cs \<union> keys_set ds"
  by (induction cs rule: keys_set.induct) auto

lemma keys_set_snoc: "keys_set (cs @ [x]) \<subseteq> (case x of Set now rn key d \<Rightarrow> insert key (keys_set cs) | _ \<Rightarrow> keys_set cs)"
  by (cases x) (auto simp: keys_set_append)

lemma keys_of_set:
  "fst ` set (cache (SimpleCache_set now rn key d c)) \<subseteq> insert key (fst ` set (cache c))"
  using keys_makeRoom [of rn c]
  by (auto simp: SimpleCache_set_def Let_def dom_update simp del: image_iff)

lemma keys_of_get:
  "fst ` set (cache (snd (SimpleCache_get now key c))) \<subseteq> fst ` set (cache c)"
proof (cases "map_of (cache c) key")
  case None
  then show ?thesis by (simp add: SimpleCache_get_def)
next
  case (Some e)
  then have "key \<in> fst ` set (cache c)" by (metis map_of_None_iff option.distinct(1))
  then show ?thesis using Some dom_delete_subset [of key "cache c"]
    by (auto simp: SimpleCache_get_def dom_update simp del: image_iff)
qed

lemma keys_of_calls:
  "fst ` set (cache (calls (SimpleCache_new cap t) cs)) \<subseteq> keys_set cs"
proof (induction cs rule: rev_induct)
  case Nil
  then show ?case by (simp add: calls_def SimpleCache_new_def)
next
  case (snoc x cs)
  show ?case
  proof (cases x)
    case (Set now rn key d)
    have "fst ` set (cache (SimpleCache_set now rn key d (calls (SimpleCache_new cap t) cs)))
        \<subseteq> insert key (keys_set cs)"
      using snoc keys_of_set [of now rn key d "calls (SimpleCache_new cap t) cs"] by blast
    then show ?thesis
      by (simp add: Set calls_snoc keys_set_append)
  next
    case (Get now key)
    have "fst ` set (cache (snd (SimpleCache_get now key (calls (SimpleCache_new cap t) cs))))
        \<subseteq> keys_set cs"
      using snoc keys_of_get [of now key "calls (SimpleCache_new cap t) cs"] by blast
    then show ?thesis
      by (simp add: Get calls_snoc keys_set_append)
  next
    case Clear
    then show ?thesis by (simp add: calls_snoc SimpleCache_clear_def)
  qed
qed

lemma get_after_set:
  assumes "now' - now \<le> ttl c"
  shows "fst (SimpleCache_get now' key (SimpleCache_set now roomNow key d c)) = Some d"
proof -
  have "map_of (cache (SimpleCache_set now roomNow key d c)) key = Some (fresh_entry d now)"
    by (simp add: SimpleCache_set_def Let_def update_conv' fresh_entry_def)
  then show ?thesis using assms
    by (simp add: SimpleCache_get_def fresh_entry_def)
qed

text \<open>
  C6, as the code has it. In a cache whose \<open>timeToLive\<close> is not negative, \<open>get(key)\<close>
  at the time of \<open>set(key, value)\<close> returns the value. In any cache: \<open>get\<close> of an entry
  older than \<open>timeToLive\<close> returns nothing and deletes the entry; \<open>get\<close> of a key that no
  call has set returns nothing; and a hit returns the data and sets the entry's
  \<open>lastAccessed\<close> to the time of the call.
\<close>

theorem get_semantics:
  "(0 \<le> ttl c \<longrightarrow>
      fst (SimpleCache_get now key (SimpleCache_set now roomNow key d c)) = Some d)
   \<and> (map_of (cache c) key = Some e \<and> now - timestamp e > ttl c \<longrightarrow>
        fst (SimpleCache_get now key c) = None
        \<and> map_of (cache (snd (SimpleCache_get now key c))) key = None)
   \<and> (key \<notin> keys_set cs \<longrightarrow>
        fst (SimpleCache_get now key (calls (SimpleCache_new capacity timeToLive) cs)) = None)
   \<and> (map_of (cache c) key = Some e \<and> \<not> now - timestamp e > ttl c \<longrightarrow>
        fst (SimpleCache_get now key c) = Some (data e)
        \<and> map_of (cache (snd (SimpleCache_get now key c))) key = Some (e\<lparr>lastAccessed := now\<rparr>))"
proof -
  have a: "fst (SimpleCache_get now key (SimpleCache_set now roomNow key d c)) = Some d"
    if "0 \<le> ttl c"
    using that by (intro get_after_set) simp
  have b: "fst (SimpleCache_get now key c) = None
        \<and> map_of (cache (snd (SimpleCache_get now key c))) key = None"
    if "map_of (cache c) key = Some e" and "now - timestamp e > ttl c"
    using that by (simp add: SimpleCache_get_def delete_conv')
  have c: "fst (SimpleCache_get now key (calls (SimpleCache_new capacity timeToLive) cs)) = None"
    if "key \<notin> keys_set cs"
  proof -
    from that have "key \<notin> fst ` set (cache (calls (SimpleCache_new capacity timeToLive) cs))"
      using keys_of_calls [of capacity timeToLive cs] by blast
    then have "map_of (cache (calls (SimpleCache_new capacity timeToLive) cs)) key = None"
      by (simp add: map_of_None_iff)
    then show ?thesis by (simp add: SimpleCache_get_def)
  qed
  have d: "fst (SimpleCache_get now key c) = Some (data e)
        \<and> map_of (cache (snd (SimpleCache_get now key c))) key = Some (e\<lparr>lastAccessed := now\<rparr>)"
    if "map_of (cache c) key = Some e" and "\<not> now - timestamp e > ttl c"
    using that by (simp add: SimpleCache_get_def update_conv')
  from a b c d show ?thesis by blast
qed

theorem get_semantics_witness:
  "0 \<le> ttl (SimpleCache_new 3 1000 :: string SimpleCache)
   \<and> fst (SimpleCache_get 0 ''key1'' (SimpleCache_set 0 0 ''key1'' ''value1'' (SimpleCache_new 3 1000)))
       = Some ''value1''
   \<and> map_of (cache (calls (SimpleCache_new 3 1000) full_cache_calls)) ''key1''
       = Some (fresh_entry ''value1'' 0)
   \<and> 1100 - timestamp (fresh_entry ''value1'' 0) > ttl (calls (SimpleCache_new 3 1000) full_cache_calls)
   \<and> fst (SimpleCache_get 1100 ''key1'' (calls (SimpleCache_new 3 1000) full_cache_calls)) = None
   \<and> map_of (cache (snd (SimpleCache_get 1100 ''key1'' (calls (SimpleCache_new 3 1000) full_cache_calls))))
        ''key1'' = None
   \<and> ''foo'' \<notin> keys_set full_cache_calls
   \<and> fst (SimpleCache_get 10 ''foo'' (calls (SimpleCache_new 3 1000) full_cache_calls)) = None
   \<and> \<not> 500 - timestamp (fresh_entry ''value1'' 0) > ttl (calls (SimpleCache_new 3 1000) full_cache_calls)
   \<and> fst (SimpleCache_get 500 ''key1'' (calls (SimpleCache_new 3 1000) full_cache_calls))
       = Some ''value1''
   \<and> map_of (cache (snd (SimpleCache_get 500 ''key1'' (calls (SimpleCache_new 3 1000) full_cache_calls))))
        ''key1'' = Some ((fresh_entry ''value1'' 0)\<lparr>lastAccessed := 500\<rparr>)"
proof -
  have c3: "cache (calls (SimpleCache_new 3 1000) full_cache_calls) =
      [(''key1'', fresh_entry ''value1'' 0), (''key2'', fresh_entry ''value2'' 5)]"
    by (simp add: calls_def SimpleCache_new_def full_cache_calls_def SimpleCache_set_def
        fresh_entry_def)
  have m: "map_of (cache (calls (SimpleCache_new 3 1000) full_cache_calls)) ''key1''
       = Some (fresh_entry ''value1'' 0)"
    unfolding c3 by simp
  have t: "ttl (calls (SimpleCache_new 3 1000) full_cache_calls) = 1000"
    by (simp add: calls_def SimpleCache_new_def full_cache_calls_def SimpleCache_set_def)
  have k: "''foo'' \<notin> keys_set full_cache_calls"
    by (simp add: full_cache_calls_def)
  have t0: "0 \<le> ttl (SimpleCache_new 3 1000 :: string SimpleCache)"
    by (simp add: SimpleCache_new_def)
  have late: "1100 - timestamp (fresh_entry ''value1'' 0)
      > ttl (calls (SimpleCache_new 3 1000) full_cache_calls)"
    unfolding t by (simp add: fresh_entry_def)
  have early: "\<not> 500 - timestamp (fresh_entry ''value1'' 0)
      > ttl (calls (SimpleCache_new 3 1000) full_cache_calls)"
    unfolding t by (simp add: fresh_entry_def)
  have w1: "fst (SimpleCache_get 0 ''key1''
      (SimpleCache_set 0 0 ''key1'' ''value1'' (SimpleCache_new 3 1000))) = Some ''value1''"
    using t0 by (rule get_semantics [THEN conjunct1, rule_format])
  have w2: "fst (SimpleCache_get 1100 ''key1'' (calls (SimpleCache_new 3 1000) full_cache_calls)) = None
      \<and> map_of (cache (snd (SimpleCache_get 1100 ''key1''
            (calls (SimpleCache_new 3 1000) full_cache_calls)))) ''key1'' = None"
    using m late
    by (intro get_semantics [THEN conjunct2, THEN conjunct1, rule_format] conjI)
  have w3: "fst (SimpleCache_get 10 ''foo'' (calls (SimpleCache_new 3 1000) full_cache_calls)) = None"
    using k by (rule get_semantics [THEN conjunct2, THEN conjunct2, THEN conjunct1, rule_format])
  have w4: "fst (SimpleCache_get 500 ''key1'' (calls (SimpleCache_new 3 1000) full_cache_calls))
        = Some (data (fresh_entry ''value1'' 0))
      \<and> map_of (cache (snd (SimpleCache_get 500 ''key1''
            (calls (SimpleCache_new 3 1000) full_cache_calls)))) ''key1''
        = Some ((fresh_entry ''value1'' 0)\<lparr>lastAccessed := 500\<rparr>)"
    using m early
    by (intro get_semantics [THEN conjunct2, THEN conjunct2, THEN conjunct2, rule_format] conjI)
  have "data (fresh_entry ''value1'' 0) = ''value1''"
    by (simp add: fresh_entry_def)
  with w1 w2 w3 w4 m late early k t0 show ?thesis
    by simp
qed

text \<open>
  C6, as the claim states it, fails for a cache with a negative \<open>timeToLive\<close>: the entry
  is already expired when it is read at the time it was set.
\<close>

theorem get_after_set_negative_ttl:
  "fst (SimpleCache_get 0 ''key1'' (SimpleCache_set 0 0 ''key1'' ''value1'' (SimpleCache_new 3 (- 1))))
     = None"
  by (simp add: SimpleCache_get_def SimpleCache_set_def SimpleCache_new_def)

text \<open>
  C10, as the code has it. A cache built with a capacity that is an integer of at least
  1 never holds more than \<open>capacity\<close> entries, whatever calls of \<open>set\<close>, \<open>get\<close> and \<open>clear\<close>
  it has served. With capacity 0 the bound fails: \<open>set\<close> on the new cache stores the
  entry and the size is 1.
\<close>

theorem size_within_capacity:
  "(1 \<le> capacity \<longrightarrow>
      int (SimpleCache_size (calls (SimpleCache_new (of_int capacity) timeToLive) cs)) \<le> capacity)
   \<and> SimpleCache_size (SimpleCache_set now roomNow key d (SimpleCache_new 0 timeToLive)) = 1"
proof -
  have "int (SimpleCache_size (calls (SimpleCache_new (of_int capacity) timeToLive) cs)) \<le> capacity"
    if "1 \<le> capacity"
    using calls_length [of capacity timeToLive cs] that by (simp add: SimpleCache_size_def)
  moreover have "SimpleCache_size (SimpleCache_set now roomNow key d (SimpleCache_new 0 timeToLive)) = 1"
    by (simp add: SimpleCache_size_def SimpleCache_set_def SimpleCache_new_def
        SimpleCache_makeRoom_def)
  ultimately show ?thesis by blast
qed

theorem size_within_capacity_witness:
  "(1::int) \<le> 2
   \<and> int (SimpleCache_size (calls (SimpleCache_new (of_int 2) 1000)
        (full_cache_calls @ [Set 7 7 ''key3'' ''value3'', Get 8 ''key2'', Set 9 9 ''key4'' ''value4'']))) \<le> 2
   \<and> SimpleCache_size (SimpleCache_set 0 0 ''key1'' ''value1'' (SimpleCache_new 0 1000)) = 1"
  using size_within_capacity [where capacity = 2 and timeToLive = 1000
      and cs = "full_cache_calls @ [Set 7 7 ''key3'' ''value3'', Get 8 ''key2'', Set 9 9 ''key4'' ''value4'']"
      and now = 0 and roomNow = 0 and key = "''key1''" and d = "''value1''"]
  by simp

text \<open>
  C10, as the claim states it, fails for a capacity of at least 1 that is not an
  integer. A cache of capacity 1.5 with one entry is below its capacity, so \<open>set\<close> of a
  second key stores it without making room: the size is 2.
\<close>

theorem size_exceeds_fractional_capacity:
  "(1 :: rat) \<le> 3 / 2
   \<and> SimpleCache_size (calls (SimpleCache_new (3 / 2) 1000) full_cache_calls) = 2
   \<and> \<not> of_nat (SimpleCache_size (calls (SimpleCache_new (3 / 2) 1000) full_cache_calls))
         \<le> (3 / 2 :: rat)"
  by (simp add: SimpleCache_size_def calls_def SimpleCache_new_def full_cache_calls_def
      SimpleCache_set_def)

end
